theory Spec2Isabelle
  imports Complex_Main "HOL-Library.AList"
begin

section \<open>Python values\<close>

text \<open>
  A decoded JSON document, as \<^verbatim>\<open>json.loads\<close> returns it: \<^verbatim>\<open>None\<close>, a bool, an int, a
  float, a str, a list, or a dict with str keys. A dict is an association list in insertion
  order with pairwise different keys, read with \<open>map_of\<close>. Python's \<^verbatim>\<open>None\<close> is \<open>JNull\<close>.
  Floats are idealised as reals; no claim below depends on rounding.
\<close>

datatype json =
    JNull
  | JBool bool
  | JInt int
  | JFloat real
  | JStr string
  | JArr "json list"
  | JObj "(string \<times> json) list"

text \<open>
  Every exception of the source is a value. The four messages raised by the source itself
  (\<^verbatim>\<open>raise Exception(...)\<close>) have a constructor each; the builtin exceptions keep their
  Python names; \<open>TransportError\<close> stands for whatever \<^verbatim>\<open>http.client\<close> or
  \<^verbatim>\<open>json.loads\<close> raise when the exchange with the remote side fails. All of them are
  subclasses of \<^verbatim>\<open>Exception\<close>, hence caught by \<^verbatim>\<open>except Exception\<close>.
\<close>

datatype error =
    LoginRequired
  | LoginFailed json
  | SensorQueryFailed json
  | DeviceListFailed json
  | TransportError
  | AttributeError
  | TypeError
  | ValueError
  | KeyError
  | OverflowError
  | ZeroDivisionError

text \<open>Truth value of a Python object, as \<^verbatim>\<open>if x\<close>, \<^verbatim>\<open>not x\<close> and \<^verbatim>\<open>x or y\<close> test it.\<close>

fun truthy :: "json \<Rightarrow> bool" where
  "truthy JNull = False"
| "truthy (JBool b) = b"
| "truthy (JInt i) = (i \<noteq> 0)"
| "truthy (JFloat r) = (r \<noteq> 0)"
| "truthy (JStr s) = (s \<noteq> [])"
| "truthy (JArr xs) = (xs \<noteq> [])"
| "truthy (JObj kvs) = (kvs \<noteq> [])"

definition py_or :: "json \<Rightarrow> json \<Rightarrow> json" where
  "py_or a b = (if truthy a then a else b)"

text \<open>
  \<^verbatim>\<open>x.get(key, default)\<close>: only a dict has the method, any other object raises
  \<^verbatim>\<open>AttributeError\<close>. \<^verbatim>\<open>x.get(key)\<close> is \<open>py_get x key JNull\<close>.
\<close>

fun py_get :: "json \<Rightarrow> string \<Rightarrow> json \<Rightarrow> error + json" where
  "py_get (JObj kvs) k d = Inr (case map_of kvs k of None \<Rightarrow> d | Some v \<Rightarrow> v)"
| "py_get _ k d = Inl AttributeError"

text \<open>
  \<^verbatim>\<open>for x in obj\<close>: a list yields its elements, a str its characters, a dict its keys;
  the other objects are not iterable.
\<close>

fun py_iter :: "json \<Rightarrow> error + json list" where
  "py_iter (JArr xs) = Inr xs"
| "py_iter (JStr s) = Inr (map (\<lambda>c. JStr [c]) s)"
| "py_iter (JObj kvs) = Inr (map (\<lambda>kv. JStr (fst kv)) kvs)"
| "py_iter _ = Inl TypeError"

section \<open>Constants of the module\<close>

definition CACHE_DURATION_SEC :: real where
  "CACHE_DURATION_SEC = 300"

definition DUPLICATE_SKIP_SEC :: real where
  "DUPLICATE_SKIP_SEC = 60"

definition SUPABASE_BATCH_SIZE :: nat where
  "SUPABASE_BATCH_SIZE = 1000"

definition MAX_CACHE_ENTRIES :: nat where
  "MAX_CACHE_ENTRIES = 500"

section \<open>The outside world and the client object\<close>

text \<open>
  \<open>sensor_info\<close> is one element of the inventory list: the dict
  \<^verbatim>\<open>{"sensor_company_id": ..., "device_id": ..., "device_name": ..., "gps_location_lat": ...,
  "gps_location_lng": ...}\<close>. Sensor ids are str, as the signature of
  \<^verbatim>\<open>get_rainfall_data\<close> declares them; \<open>si_sensor_company_id = None\<close> is a dict without
  the key, on which \<^verbatim>\<open>sensor_info['sensor_company_id']\<close> raises \<^verbatim>\<open>KeyError\<close>. The other
  fields are only read with \<^verbatim>\<open>.get\<close>, for which a missing key and a \<^verbatim>\<open>None\<close> value are the same.
  A dict whose id is an object of another type is the subject of a section of its own below.
\<close>

record sensor_info =
  si_sensor_company_id :: "string option"
  si_device_id :: json
  si_device_name :: json
  si_gps_location_lat :: json
  si_gps_location_lng :: json

text \<open>
  One device of the \<^verbatim>\<open>/devices\<close> answer: the device's own dict, and the
  \<^verbatim>\<open>sensor_company_id\<close> of each element of its \<^verbatim>\<open>sensor_companies\<close> list. The answer
  itself is its \<^verbatim>\<open>status\<close> and the devices under \<^verbatim>\<open>data.data\<close>.
\<close>

record device =
  dv_fields :: "(string \<times> json) list"
  dv_sensor_companies :: "string list"

record devices_response =
  dr_status :: json
  dr_devices :: "device list"

datatype request =
    PostLogin string string
  | GetRecords string string string
  | GetDevices json

text \<open>
  The world outside the process. \<open>clock n\<close> is what the \<open>n\<close>-th call of \<^verbatim>\<open>time.time()\<close>
  returns; no order between the readings is assumed. The three \<open>remote_\<close> fields give the outcome
  of the \<open>n\<close>-th network exchange of the process when it is the given request: an exception, or
  the decoded body. An answer to \<^verbatim>\<open>/devices\<close> that is not of the shape of \<open>devices_response\<close>
  makes the flattening loop raise before any attribute is written, so it is one of the exceptions.
\<close>

record env =
  clock :: "nat \<Rightarrow> real"
  remote_login :: "nat \<Rightarrow> string \<Rightarrow> string \<Rightarrow> error + json"
  remote_records :: "nat \<Rightarrow> string \<Rightarrow> string \<Rightarrow> string \<Rightarrow> error + json"
  remote_devices :: "nat \<Rightarrow> json \<Rightarrow> error + devices_response"

text \<open>
  An entry of \<^verbatim>\<open>_data_cache\<close>: \<^verbatim>\<open>{'data': response_data, 'timestamp': time.time()}\<close>. The
  only statement that writes the cache creates both keys, so \<^verbatim>\<open>.get('timestamp')\<close> is never
  \<^verbatim>\<open>None\<close> and the default \<open>0\<close> of \<^verbatim>\<open>.get('timestamp', 0)\<close> is never used.
\<close>

record cache_entry =
  ce_data :: json
  ce_timestamp :: real

text \<open>
  The attributes of \<^verbatim>\<open>MertaniRainfallAPI\<close> that change, and two counters of what the object
  has done to the world: \<open>time_reads\<close> counts the calls of \<^verbatim>\<open>time.time()\<close> and \<open>requests\<close>
  lists the network requests issued, oldest first. \<^verbatim>\<open>_cache_duration\<close> is set once to
  \<open>CACHE_DURATION_SEC\<close> and is that constant here.
\<close>

record api =
  access_token :: json
  company_id :: json
  sensors_cache :: "sensor_info list option"
  cache_timestamp :: "real option"
  last_processed_cache :: "(string \<times> real) list"
  data_cache :: "(string \<times> cache_entry) list"
  time_reads :: nat
  requests :: "request list"

definition init_api :: api where
  "init_api = \<lparr>access_token = JNull, company_id = JNull, sensors_cache = None,
     cache_timestamp = None, last_processed_cache = [], data_cache = [],
     time_reads = 0, requests = []\<rparr>"

text \<open>\<^verbatim>\<open>time.time()\<close>: the reading, and the object after it.\<close>

definition now :: "env \<Rightarrow> api \<Rightarrow> real" where
  "now e s = clock e (time_reads s)"

definition tick :: "api \<Rightarrow> api" where
  "tick s = s\<lparr>time_reads := Suc (time_reads s)\<rparr>"

definition sent :: "request \<Rightarrow> api \<Rightarrow> api" where
  "sent q s = s\<lparr>requests := requests s @ [q]\<rparr>"

text \<open>\<^verbatim>\<open>f"{sensor_company_id}_{start_date}_{end_date}"\<close>\<close>

definition cache_key :: "string \<Rightarrow> string \<Rightarrow> string \<Rightarrow> string" where
  "cache_key sensor_id start_date end_date = sensor_id @ ''_'' @ start_date @ ''_'' @ end_date"

section \<open>login\<close>

text \<open>
  The attributes are assigned one after the other, so an exception of a later \<^verbatim>\<open>.get\<close>
  leaves the earlier assignments in place.
\<close>

definition login :: "env \<Rightarrow> api \<Rightarrow> string \<Rightarrow> string \<Rightarrow> (error + json) \<times> api" where
  "login e s email password =
     (let s1 = sent (PostLogin email password) s in
      case remote_login e (length (requests s)) email password of
        Inl x \<Rightarrow> (Inl x, s1)
      | Inr response_data \<Rightarrow>
          (case py_get response_data ''status'' JNull of
             Inl x \<Rightarrow> (Inl x, s1)
           | Inr st \<Rightarrow>
               if st = JStr ''OK'' then
                 (case py_get response_data ''data'' (JObj []) of
                    Inl x \<Rightarrow> (Inl x, s1)
                  | Inr d \<Rightarrow>
                      (case py_get d ''accessToken'' JNull of
                         Inl x \<Rightarrow> (Inl x, s1)
                       | Inr tok \<Rightarrow>
                           (let s2 = s1\<lparr>access_token := tok\<rparr> in
                            case py_get d ''user'' (JObj []) of
                              Inl x \<Rightarrow> (Inl x, s2)
                            | Inr user_data \<Rightarrow>
                                (case py_get user_data ''company_id'' JNull of
                                   Inl x \<Rightarrow> (Inl x, s2)
                                 | Inr cid \<Rightarrow> (Inr response_data, s2\<lparr>company_id := cid\<rparr>)))))
               else (Inl (LoginFailed response_data), s1)))"

section \<open>get\_rainfall\_data\<close>

text \<open>
  \<^verbatim>\<open>min(self._data_cache.keys(), key=lambda k: self._data_cache[k].get('timestamp', 0))\<close>:
  the first key, in insertion order, whose entry has the least timestamp; \<^verbatim>\<open>min\<close> of an empty
  sequence raises \<^verbatim>\<open>ValueError\<close>. Walking the keys and reading each entry is walking the items.
\<close>

definition older ::
  "string \<times> cache_entry \<Rightarrow> string \<times> cache_entry \<Rightarrow> string \<times> cache_entry" where
  "older m x = (if ce_timestamp (snd x) < ce_timestamp (snd m) then x else m)"

fun oldest :: "(string \<times> cache_entry) list \<Rightarrow> error + string" where
  "oldest [] = Inl ValueError"
| "oldest (x # xs) = Inr (fst (foldl older x xs))"

text \<open>Lines 110 to 113: make room when the cache is full.\<close>

definition evict :: "(string \<times> cache_entry) list \<Rightarrow> error + (string \<times> cache_entry) list" where
  "evict c =
     (if length c \<ge> MAX_CACHE_ENTRIES then
        (case oldest c of Inl x \<Rightarrow> Inl x | Inr k \<Rightarrow> Inr (AList.delete k c))
      else Inr c)"

text \<open>
  Lines 95 to 122: the network call and what follows it. The request is issued whatever its
  outcome is. \<^verbatim>\<open>finally: conn.close()\<close> changes nothing that is modelled.
\<close>

definition fetch_records ::
  "env \<Rightarrow> api \<Rightarrow> string \<Rightarrow> string \<Rightarrow> string \<Rightarrow> bool \<Rightarrow> (error + json) \<times> api" where
  "fetch_records e s sensor_company_id start_date end_date use_cache =
     (let s1 = sent (GetRecords sensor_company_id start_date end_date) s in
      case remote_records e (length (requests s)) sensor_company_id start_date end_date of
        Inl x \<Rightarrow> (Inl x, s1)
      | Inr response_data \<Rightarrow>
          (case py_get response_data ''status'' JNull of
             Inl x \<Rightarrow> (Inl x, s1)
           | Inr st \<Rightarrow>
               if st = JStr ''OK'' then
                 (if use_cache then
                    (case evict (data_cache s1) of
                       Inl x \<Rightarrow> (Inl x, s1)
                     | Inr c \<Rightarrow>
                         (Inr response_data,
                          tick (s1\<lparr>data_cache :=
                            AList.update (cache_key sensor_company_id start_date end_date)
                              \<lparr>ce_data = response_data, ce_timestamp = now e s1\<rparr> c\<rparr>)))
                  else (Inr response_data, s1))
               else (Inl (SensorQueryFailed response_data), s1)))"

text \<open>
  The whole method. The clock is read in the cache test only when the key is in the cache
  (and \<^verbatim>\<open>use_cache\<close> holds), as \<^verbatim>\<open>and\<close> evaluates its right operand only then.
\<close>

definition get_rainfall_data ::
  "env \<Rightarrow> api \<Rightarrow> string \<Rightarrow> string \<Rightarrow> string \<Rightarrow> bool \<Rightarrow> (error + json) \<times> api" where
  "get_rainfall_data e s sensor_company_id start_date end_date use_cache =
     (if \<not> truthy (access_token s) then (Inl LoginRequired, s)
      else
        (case (if use_cache
               then map_of (data_cache s) (cache_key sensor_company_id start_date end_date)
               else None) of
           Some cached_data \<Rightarrow>
             (if now e s - ce_timestamp cached_data < CACHE_DURATION_SEC
              then (Inr (ce_data cached_data), tick s)
              else fetch_records e (tick s) sensor_company_id start_date end_date use_cache)
         | None \<Rightarrow> fetch_records e s sensor_company_id start_date end_date use_cache))"

section \<open>get\_all\_rainfall\_sensors\_with\_device\_info\<close>

text \<open>
  The builtins of Python that the source calls on payload values and that are not defined here:
  \<open>str_of\<close> is \<^verbatim>\<open>str(x)\<close> for an object that is not a str, \<open>float_of\<close> is \<^verbatim>\<open>float(x)\<close>
  with the exception it may raise, \<open>dumps\<close> is
  \<^verbatim>\<open>json.dumps(x, ensure_ascii=False, default=str)\<close> and \<open>dumps_plain\<close> is \<^verbatim>\<open>json.dumps(x)\<close>.
  Every statement below holds for all of them.
\<close>

record builtins =
  str_of :: "json \<Rightarrow> string"
  float_of :: "json \<Rightarrow> error + real"
  dumps :: "json \<Rightarrow> error + string"
  dumps_plain :: "json \<Rightarrow> error + string"

text \<open>\<^verbatim>\<open>str(x)\<close>, also what an f-string does to \<^verbatim>\<open>{x}\<close>.\<close>

definition py_str :: "builtins \<Rightarrow> json \<Rightarrow> string" where
  "py_str b x = (case x of JStr s \<Rightarrow> s | _ \<Rightarrow> str_of b x)"

text \<open>\<^verbatim>\<open>d.get(key, default)\<close> on an object known to be a dict.\<close>

definition dict_get :: "(string \<times> json) list \<Rightarrow> string \<Rightarrow> json \<Rightarrow> json" where
  "dict_get d k dflt = (case map_of d k of None \<Rightarrow> dflt | Some v \<Rightarrow> v)"

text \<open>Lines 150 to 166: the descriptors of one device, one for each of its sensors.\<close>

definition device_sensors :: "builtins \<Rightarrow> device \<Rightarrow> sensor_info list" where
  "device_sensors b d =
     (let f = dv_fields d;
          device_id = dict_get f ''device_id'' JNull;
          device_name =
            py_or (py_or (dict_get f ''device_name'' JNull) (dict_get f ''name'' JNull))
              (JStr (''Device_'' @ py_str b (dict_get f ''device_id'' (JStr ''Unknown''))));
          lat = py_or (dict_get f ''gps_location_lat'' JNull) (dict_get f ''device_latitude'' JNull);
          lng = py_or (dict_get f ''gps_location_lng'' JNull) (dict_get f ''device_longitude'' JNull)
      in map (\<lambda>sid. \<lparr>si_sensor_company_id = Some sid, si_device_id = device_id,
                       si_device_name = device_name, si_gps_location_lat = lat,
                       si_gps_location_lng = lng\<rparr>) (dv_sensor_companies d))"

text \<open>Lines 136 to 180: what the method does when the cache is not used.\<close>

definition fetch_devices ::
  "builtins \<Rightarrow> env \<Rightarrow> api \<Rightarrow> real \<Rightarrow> (error + sensor_info list) \<times> api" where
  "fetch_devices b e s current_time =
     (if \<not> truthy (access_token s) then (Inl LoginRequired, s)
      else
        (let s1 = sent (GetDevices (company_id s)) s in
         case remote_devices e (length (requests s)) (company_id s) of
           Inl x \<Rightarrow> (Inl x, s1)
         | Inr response_data \<Rightarrow>
             if dr_status response_data = JStr ''OK'' then
               (let sensors = concat (map (device_sensors b) (dr_devices response_data)) in
                (Inr sensors,
                 s1\<lparr>sensors_cache := Some sensors, cache_timestamp := Some current_time\<rparr>))
             else (Inl (DeviceListFailed (dr_status response_data)), s1)))"

text \<open>
  The method: the clock is read first, a fresh cache is returned before the token is looked
  at, and the cache is written only after a \<^verbatim>\<open>status\<close> of \<^verbatim>\<open>'OK'\<close>.
\<close>

definition get_all_rainfall_sensors_with_device_info ::
  "builtins \<Rightarrow> env \<Rightarrow> api \<Rightarrow> (error + sensor_info list) \<times> api" where
  "get_all_rainfall_sensors_with_device_info b e s =
     (let current_time = now e s; s1 = tick s in
      case (sensors_cache s1, cache_timestamp s1) of
        (Some cached, Some ts) \<Rightarrow>
          if current_time - ts < CACHE_DURATION_SEC then (Inr cached, s1)
          else fetch_devices b e s1 current_time
      | _ \<Rightarrow> fetch_devices b e s1 current_time)"

section \<open>fetch\_single\_sensor\_data\<close>

text \<open>
  The result tuple \<^verbatim>\<open>(sensor_id, data, display_name, success)\<close>; a \<^verbatim>\<open>None\<close> payload is
  \<open>JNull\<close>.
\<close>

type_synonym fetch_result = "string \<times> json \<times> json \<times> bool"

text \<open>
  Lines 200 to 209: the \<^verbatim>\<open>try\<close> block. The ledger is stamped with a new reading of the clock
  after \<^verbatim>\<open>get_rainfall_data\<close> has returned; any exception of it becomes the failure tuple.
\<close>

definition try_fetch ::
  "env \<Rightarrow> api \<Rightarrow> string \<Rightarrow> json \<Rightarrow> string \<Rightarrow> string \<Rightarrow> fetch_result \<times> api" where
  "try_fetch e s sensor_id display_name start_date end_date =
     (case get_rainfall_data e s sensor_id start_date end_date True of
        (Inr data, s1) \<Rightarrow>
          ((sensor_id, data, display_name, True),
           tick (s1\<lparr>last_processed_cache :=
             AList.update (cache_key sensor_id start_date end_date) (now e s1)
               (last_processed_cache s1)\<rparr>))
      | (Inl x, s1) \<Rightarrow> ((sensor_id, JNull, display_name, False), s1))"

text \<open>\<^verbatim>\<open>display_name = device_name or device_id or 'Unknown'\<close>\<close>

definition display_name :: "sensor_info \<Rightarrow> json" where
  "display_name sensor_info =
     py_or (py_or (si_device_name sensor_info) (si_device_id sensor_info)) (JStr ''Unknown'')"

text \<open>
  The method. \<^verbatim>\<open>sensor_info['sensor_company_id']\<close> stands before the \<^verbatim>\<open>try\<close>, so its
  \<^verbatim>\<open>KeyError\<close> leaves the method.
\<close>

definition fetch_single_sensor_data ::
  "env \<Rightarrow> api \<Rightarrow> sensor_info \<Rightarrow> string \<Rightarrow> string \<Rightarrow> (error + fetch_result) \<times> api" where
  "fetch_single_sensor_data e s sensor_info start_date end_date =
     (case si_sensor_company_id sensor_info of
        None \<Rightarrow> (Inl KeyError, s)
      | Some sensor_id \<Rightarrow>
          (case map_of (last_processed_cache s) (cache_key sensor_id start_date end_date) of
             Some last_time \<Rightarrow>
               if now e s - last_time < DUPLICATE_SKIP_SEC
               then (Inr (sensor_id, JNull, display_name sensor_info, True), tick s)
               else (case try_fetch e (tick s) sensor_id (display_name sensor_info)
                            start_date end_date of
                       (r, s1) \<Rightarrow> (Inr r, s1))
           | None \<Rightarrow>
               (case try_fetch e s sensor_id (display_name sensor_info) start_date end_date of
                  (r, s1) \<Rightarrow> (Inr r, s1))))"

section \<open>fetch\_all\_rainfall\_data\_parallel\<close>

text \<open>
  The worker pool, as one task after the other in the order of the list: every task is
  submitted before the first result is read and the \<^verbatim>\<open>with\<close> block waits for all of them, so
  all tasks run, also when one of them raises. What two tasks that store into the reading
  cache at the same time do to it is the subject of \<open>interleave\<close> below.
\<close>

fun run_tasks ::
  "env \<Rightarrow> api \<Rightarrow> sensor_info list \<Rightarrow> string \<Rightarrow> string \<Rightarrow> (error + fetch_result) list \<times> api" where
  "run_tasks e s [] start_str end_str = ([], s)"
| "run_tasks e s (sensor_info # rest) start_str end_str =
     (case fetch_single_sensor_data e s sensor_info start_str end_str of
        (r, s1) \<Rightarrow>
          (case run_tasks e s1 rest start_str end_str of
             (rs, s2) \<Rightarrow> (r # rs, s2)))"

text \<open>
  The state in which each task of the pool starts, and whether a task started there is cut
  short by the dedup ledger (lines 193 to 198).
\<close>

fun task_states :: "env \<Rightarrow> api \<Rightarrow> sensor_info list \<Rightarrow> string \<Rightarrow> string \<Rightarrow> api list" where
  "task_states e s [] start_str end_str = []"
| "task_states e s (sensor_info # rest) start_str end_str =
     s # task_states e (snd (fetch_single_sensor_data e s sensor_info start_str end_str)) rest
           start_str end_str"

definition skipped :: "env \<Rightarrow> api \<Rightarrow> sensor_info \<Rightarrow> string \<Rightarrow> string \<Rightarrow> bool" where
  "skipped e s sensor_info start_date end_date =
     (case si_sensor_company_id sensor_info of
        None \<Rightarrow> False
      | Some sensor_id \<Rightarrow>
          (case map_of (last_processed_cache s) (cache_key sensor_id start_date end_date) of
             None \<Rightarrow> False
           | Some last_time \<Rightarrow> now e s - last_time < DUPLICATE_SKIP_SEC))"

text \<open>
  Lines 248 to 255: \<^verbatim>\<open>future.result()\<close> re-raises the exception of a task; otherwise
  \<^verbatim>\<open>all_data[sensor_id] = data\<close>.
\<close>

fun collect ::
  "(string \<times> json) list \<Rightarrow> (error + fetch_result) list \<Rightarrow> error + (string \<times> json) list" where
  "collect all_data [] = Inr all_data"
| "collect all_data (Inl x # rs) = Inl x"
| "collect all_data (Inr (sensor_id, data, device_name, success) # rs) =
     collect (AList.update sensor_id data all_data) rs"

text \<open>
  The method, for the window \<^verbatim>\<open>start_str\<close> to \<^verbatim>\<open>end_str\<close> that it computes from
  \<^verbatim>\<open>datetime.now()\<close> and \<^verbatim>\<open>days\<close>; \<open>ci\<close> is the module's \<^verbatim>\<open>_CI\<close>.
  \<^verbatim>\<open>ThreadPoolExecutor\<close> refuses a pool without workers with \<^verbatim>\<open>ValueError\<close>. Outside CI the
  summary divides by the number of sensors and reads the clock once for every cache entry.
\<close>

definition fetch_all_rainfall_data_parallel ::
  "builtins \<Rightarrow> env \<Rightarrow> bool \<Rightarrow> api \<Rightarrow> string \<Rightarrow> string \<Rightarrow> int \<Rightarrow>
     (error + (string \<times> json) list) \<times> api" where
  "fetch_all_rainfall_data_parallel b e ci s start_str end_str max_workers =
     (case get_all_rainfall_sensors_with_device_info b e s of
        (Inl x, s1) \<Rightarrow> (Inl x, s1)
      | (Inr sensors_with_device_info, s1) \<Rightarrow>
          (let s2 = tick s1;
               workers = (if ci then min max_workers 8 else max_workers)
           in if workers \<le> 0 then (Inl ValueError, s2)
              else
                (case run_tasks e s2 sensors_with_device_info start_str end_str of
                   (rs, s3) \<Rightarrow>
                     (case collect [] rs of
                        Inl x \<Rightarrow> (Inl x, s3)
                      | Inr all_data \<Rightarrow>
                          (let s4 = tick s3 in
                           if ci then (Inr all_data, s4)
                           else if sensors_with_device_info = [] then (Inl ZeroDivisionError, s4)
                           else (Inr all_data,
                                 s4\<lparr>time_reads := time_reads s4 + length (data_cache s4)\<rparr>))))))"

section \<open>transform\_rainfall\_data\<close>

text \<open>One row of the destination table: the dict built in lines 311 to 325.\<close>

record persistable_record =
  pr_sensor_company_id :: string
  pr_sensor_name :: string
  pr_sensor_unit :: string
  pr_device_id :: "string option"
  pr_device_name :: "string option"
  pr_gps_location_lat :: "real option"
  pr_gps_location_lng :: "real option"
  pr_datetime :: json
  pr_value_calibration :: "real option"
  pr_value_raw :: "real option"
  pr_timestamp :: string
  pr_raw_data :: string
  pr_created_at :: string

text \<open>Sequencing: the first exception ends the computation.\<close>

definition and_then :: "error + 'a \<Rightarrow> ('a \<Rightarrow> error + 'b) \<Rightarrow> error + 'b" where
  "and_then m f = (case m of Inl x \<Rightarrow> Inl x | Inr v \<Rightarrow> f v)"

text \<open>A loop that appends what each round produces to one list.\<close>

fun for_each :: "('a \<Rightarrow> error + 'b list) \<Rightarrow> 'a list \<Rightarrow> error + 'b list" where
  "for_each f [] = Inr []"
| "for_each f (x # xs) =
     and_then (f x) (\<lambda>ys. and_then (for_each f xs) (\<lambda>zs. Inr (ys @ zs)))"

text \<open>
  \<^verbatim>\<open>_safe_float\<close>: \<^verbatim>\<open>None\<close> stays \<^verbatim>\<open>None\<close>; of the exceptions of \<^verbatim>\<open>float\<close> only
  \<^verbatim>\<open>ValueError\<close> and \<^verbatim>\<open>TypeError\<close> are caught.
\<close>

definition safe_float :: "builtins \<Rightarrow> json \<Rightarrow> error + real option" where
  "safe_float b v =
     (if v = JNull then Inr None
      else (case float_of b v of
              Inr r \<Rightarrow> Inr (Some r)
            | Inl ValueError \<Rightarrow> Inr None
            | Inl TypeError \<Rightarrow> Inr None
            | Inl x \<Rightarrow> Inl x))"

text \<open>Lines 305 to 309: the reading as text, or the placeholder.\<close>

definition raw_data_json :: "builtins \<Rightarrow> json \<Rightarrow> error + string" where
  "raw_data_json b sensor_record =
     (let placeholder =
            dumps_plain b (JObj [(''error'', JStr ''JSON serialization failed''),
                                 (''data'', JStr (py_str b sensor_record))])
      in case dumps b sensor_record of
           Inr t \<Rightarrow> Inr t
         | Inl TypeError \<Rightarrow> placeholder
         | Inl ValueError \<Rightarrow> placeholder
         | Inl x \<Rightarrow> Inl x)"

text \<open>\<^verbatim>\<open>str(x) if x else None\<close>\<close>

definition str_if :: "builtins \<Rightarrow> json \<Rightarrow> string option" where
  "str_if b x = (if truthy x then Some (py_str b x) else None)"

text \<open>
  \<^verbatim>\<open>device_info.get(key)\<close> for \<^verbatim>\<open>device_info = device_info_map.get(sensor_id, {})\<close>: the
  empty dict answers \<^verbatim>\<open>None\<close> to every key.
\<close>

definition info_get :: "sensor_info option \<Rightarrow> (sensor_info \<Rightarrow> json) \<Rightarrow> json" where
  "info_get device_info field = (case device_info of None \<Rightarrow> JNull | Some d \<Rightarrow> field d)"

text \<open>Lines 304 to 326: the body of the innermost loop, in the order of evaluation.\<close>

definition transform_record ::
  "builtins \<Rightarrow> string \<Rightarrow> string \<Rightarrow> sensor_info option \<Rightarrow> json \<Rightarrow> json \<Rightarrow>
     error + persistable_record list" where
  "transform_record b current_time sensor_id device_info sensor_master sensor_record =
     and_then (raw_data_json b sensor_record) (\<lambda>raw.
     and_then (py_get sensor_master ''sensor_name'' (JStr ''Unknown'')) (\<lambda>sensor_name.
     and_then (py_get sensor_master ''sensor_unit'' (JStr ''mm'')) (\<lambda>sensor_unit.
     and_then (safe_float b (info_get device_info si_gps_location_lat)) (\<lambda>lat.
     and_then (safe_float b (info_get device_info si_gps_location_lng)) (\<lambda>lng.
     and_then (py_get sensor_record ''datetime'' JNull) (\<lambda>dt.
     and_then (py_get sensor_record ''value_calibration'' JNull) (\<lambda>vc.
     and_then (safe_float b vc) (\<lambda>value_calibration.
     and_then (py_get sensor_record ''value_raw'' JNull) (\<lambda>vr.
     and_then (safe_float b vr) (\<lambda>value_raw.
       Inr [\<lparr>pr_sensor_company_id = sensor_id,
             pr_sensor_name = py_str b sensor_name,
             pr_sensor_unit = py_str b sensor_unit,
             pr_device_id = str_if b (info_get device_info si_device_id),
             pr_device_name = str_if b (info_get device_info si_device_name),
             pr_gps_location_lat = lat,
             pr_gps_location_lng = lng,
             pr_datetime = dt,
             pr_value_calibration = value_calibration,
             pr_value_raw = value_raw,
             pr_timestamp = current_time,
             pr_raw_data = raw,
             pr_created_at = current_time\<rparr>]))))))))))"

text \<open>Lines 299 to 326: one element of \<^verbatim>\<open>data.data\<close>.\<close>

definition transform_group ::
  "builtins \<Rightarrow> string \<Rightarrow> string \<Rightarrow> sensor_info option \<Rightarrow> json \<Rightarrow>
     error + persistable_record list" where
  "transform_group b current_time sensor_id device_info record =
     and_then (py_get record ''sensor_master'' (JObj [])) (\<lambda>sensor_master.
     and_then (py_get record ''sensor_records'' (JArr [])) (\<lambda>sensor_records.
     and_then (py_iter sensor_records)
       (for_each (transform_record b current_time sensor_id device_info sensor_master))))"

text \<open>Lines 294 to 326: one item of \<^verbatim>\<open>rainfall_data\<close>.\<close>

definition transform_entry ::
  "builtins \<Rightarrow> string \<Rightarrow> (string \<times> sensor_info) list \<Rightarrow> string \<times> json \<Rightarrow>
     error + persistable_record list" where
  "transform_entry b current_time device_info_map item =
     (case item of (sensor_id, sensor_data) \<Rightarrow>
        if \<not> truthy sensor_data then Inr []
        else
          and_then (py_get sensor_data ''status'' JNull) (\<lambda>st.
            if st \<noteq> JStr ''OK'' then Inr []
            else
              and_then (py_get sensor_data ''data'' (JObj [])) (\<lambda>d.
              and_then (py_get d ''data'' (JArr [])) (\<lambda>records.
              and_then (py_iter records)
                (for_each (transform_group b current_time sensor_id
                   (map_of device_info_map sensor_id)))))))"

text \<open>
  Lines 281 to 284: the dict comprehension; a later descriptor of the same sensor replaces
  an earlier one, and a descriptor without the key raises \<^verbatim>\<open>KeyError\<close>.
\<close>

fun device_info_map ::
  "(string \<times> sensor_info) list \<Rightarrow> sensor_info list \<Rightarrow> error + (string \<times> sensor_info) list" where
  "device_info_map m [] = Inr m"
| "device_info_map m (sensor # rest) =
     (case si_sensor_company_id sensor of
        None \<Rightarrow> Inl KeyError
      | Some k \<Rightarrow> device_info_map (AList.update k sensor m) rest)"

text \<open>
  The method; \<open>current_time\<close> is what \<^verbatim>\<open>datetime.now().isoformat()\<close> returns in line 278.
  The method only reads its two arguments (\<^verbatim>\<open>.get\<close>, \<^verbatim>\<open>.items()\<close>, iteration) and builds new
  objects, so the model is a function of them and returns nothing but the rows. What it prints
  outside CI cannot raise on these types.
\<close>

definition transform_rainfall_data ::
  "builtins \<Rightarrow> string \<Rightarrow> (string \<times> json) list \<Rightarrow> sensor_info list \<Rightarrow>
     error + persistable_record list" where
  "transform_rainfall_data b current_time rainfall_data sensors_with_device_info =
     and_then (device_info_map [] sensors_with_device_info) (\<lambda>m.
       for_each (transform_entry b current_time m) rainfall_data)"

section \<open>save\_to\_supabase\<close>

text \<open>
  The destination table: the outcome of the \<open>n\<close>-th \<^verbatim>\<open>insert(rows).execute()\<close> of a call of
  the method, an exception or the \<^verbatim>\<open>data\<close> attribute of the result (\<^verbatim>\<open>None\<close> or the rows
  written).
\<close>

type_synonym store = "nat \<Rightarrow> persistable_record list \<Rightarrow> error + persistable_record list option"

text \<open>
  The local variable \<^verbatim>\<open>total_saved\<close>, which the last line prints, and the row lists handed to
  \<^verbatim>\<open>insert\<close> so far.
\<close>

record saving =
  total_saved :: nat
  inserts :: "persistable_record list list"

text \<open>Lines 359 to 366: the rows of a failed batch, one insert each.\<close>

definition insert_row :: "store \<Rightarrow> saving \<Rightarrow> persistable_record \<Rightarrow> saving" where
  "insert_row db st record =
     (let st1 = st\<lparr>inserts := inserts st @ [[record]]\<rparr> in
      case db (length (inserts st)) [record] of
        Inl single_error \<Rightarrow> st1
      | Inr None \<Rightarrow> st1
      | Inr (Some rows) \<Rightarrow> if rows \<noteq> [] then st1\<lparr>total_saved := total_saved st + 1\<rparr> else st1)"

text \<open>Lines 350 to 366: one batch.\<close>

definition insert_batch :: "store \<Rightarrow> saving \<Rightarrow> persistable_record list \<Rightarrow> saving" where
  "insert_batch db st batch =
     (let st1 = st\<lparr>inserts := inserts st @ [batch]\<rparr> in
      case db (length (inserts st)) batch of
        Inl batch_error \<Rightarrow> foldl (insert_row db) st1 batch
      | Inr None \<Rightarrow> st1
      | Inr (Some rows) \<Rightarrow> st1\<lparr>total_saved := total_saved st + length rows\<rparr>)"

text \<open>\<^verbatim>\<open>records[i:i + batch_size] for i in range(0, len(records), batch_size)\<close>\<close>

function batches :: "'a list \<Rightarrow> 'a list list" where
  "batches records =
     (if records = [] then []
      else take SUPABASE_BATCH_SIZE records # batches (drop SUPABASE_BATCH_SIZE records))"
  by pat_completeness auto
termination
  by (relation "measure length") (auto simp: SUPABASE_BATCH_SIZE_def)

declare batches.simps [simp del]

text \<open>
  The method: its return value and the final state of the loop. Everything that can raise
  stands inside one of the two inner \<^verbatim>\<open>try\<close> blocks, so the outer handler with its
  \<^verbatim>\<open>return False\<close> is never entered on a list of rows.
\<close>

definition save_to_supabase :: "store \<Rightarrow> persistable_record list \<Rightarrow> bool \<times> saving" where
  "save_to_supabase db records =
     (if records = [] then (True, \<lparr>total_saved = 0, inserts = []\<rparr>)
      else (True, foldl (insert_batch db) \<lparr>total_saved = 0, inserts = []\<rparr> (batches records)))"

section \<open>Runs of the client\<close>

text \<open>
  The states of a client object that started from the constructor and has since completed
  calls of its public methods, one at a time.
\<close>

inductive reachable :: "builtins \<Rightarrow> env \<Rightarrow> api \<Rightarrow> bool" for b :: builtins and e :: env where
  constructed: "reachable b e init_api"
| after_login:
    "reachable b e s \<Longrightarrow> login e s email password = (r, s') \<Longrightarrow> reachable b e s'"
| after_get_rainfall_data:
    "reachable b e s \<Longrightarrow> get_rainfall_data e s sid st en uc = (r, s') \<Longrightarrow> reachable b e s'"
| after_get_all_rainfall_sensors:
    "reachable b e s \<Longrightarrow> get_all_rainfall_sensors_with_device_info b e s = (q, s')
       \<Longrightarrow> reachable b e s'"
| after_fetch_single_sensor_data:
    "reachable b e s \<Longrightarrow> fetch_single_sensor_data e s sensor_info st en = (p, s')
       \<Longrightarrow> reachable b e s'"
| after_fetch_all_rainfall_data_parallel:
    "reachable b e s \<Longrightarrow> fetch_all_rainfall_data_parallel b e ci s st en workers = (a, s')
       \<Longrightarrow> reachable b e s'"

text \<open>The bound on the reading cache, and the keys of a dict are pairwise different.\<close>

definition cache_ok :: "api \<Rightarrow> bool" where
  "cache_ok s \<longleftrightarrow>
     length (data_cache s) \<le> MAX_CACHE_ENTRIES \<and> distinct (map fst (data_cache s))"

section \<open>The readings of a payload\<close>

text \<open>
  What the specification calls the raw readings contained in a batch entry: the payload's
  \<^verbatim>\<open>data.data\<close> is a list of groups, and each group lists its readings under
  \<^verbatim>\<open>sensor_records\<close>; a missing key stands for no groups and no readings. A batch entry
  counts when its payload is not null and its \<^verbatim>\<open>status\<close> is \<^verbatim>\<open>'OK'\<close>.
\<close>

definition key_or :: "json \<Rightarrow> string \<Rightarrow> json \<Rightarrow> json" where
  "key_or x k dflt = (case x of JObj kvs \<Rightarrow> dict_get kvs k dflt | _ \<Rightarrow> dflt)"

definition elements :: "json \<Rightarrow> json list" where
  "elements x = (case py_iter x of Inr xs \<Rightarrow> xs | Inl err \<Rightarrow> [])"

definition raw_readings :: "json \<Rightarrow> json list" where
  "raw_readings payload =
     concat (map (\<lambda>group. elements (key_or group ''sensor_records'' (JArr [])))
       (elements (key_or (key_or payload ''data'' (JObj [])) ''data'' (JArr []))))"

definition contributes :: "json \<Rightarrow> bool" where
  "contributes payload =
     (case payload of JObj kvs \<Rightarrow> map_of kvs ''status'' = Some (JStr ''OK'') | _ \<Rightarrow> False)"





text \<open>
  What a row made for the sensor \<open>sid\<close> at the time \<open>t\<close> from the descriptor
  \<open>di\<close> (or from none) has in its fields that do not come from the reading.
\<close>

definition row_ok ::
  "builtins \<Rightarrow> string \<Rightarrow> string \<Rightarrow> sensor_info option \<Rightarrow> persistable_record \<Rightarrow> bool" where
  "row_ok b t sid di rec \<longleftrightarrow>
     pr_sensor_company_id rec = sid \<and> pr_timestamp rec = t \<and> pr_created_at rec = t
     \<and> pr_device_id rec = str_if b (info_get di si_device_id)
     \<and> pr_device_name rec = str_if b (info_get di si_device_name)
     \<and> (di = None \<longrightarrow> pr_gps_location_lat rec = None \<and> pr_gps_location_lng rec = None)"


text \<open>The row without the two fields that carry the time of processing.\<close>

definition untimed :: "persistable_record \<Rightarrow> persistable_record" where
  "untimed r = r\<lparr>pr_timestamp := [], pr_created_at := []\<rparr>"

text \<open>The outcome of the transformer without those two fields: its rows, or its exception.\<close>

definition untimed_result ::
  "error + persistable_record list \<Rightarrow> error + persistable_record list" where
  "untimed_result r = (case r of Inl x \<Rightarrow> Inl x | Inr rows \<Rightarrow> Inr (map untimed rows))"

section \<open>Rows that the store accepts\<close>

text \<open>
  The \<open>n\<close>-th insert, made for one row, counts as saved: it returns and the \<^verbatim>\<open>data\<close> of
  its result is not empty.
\<close>

definition row_saved :: "store \<Rightarrow> nat \<Rightarrow> persistable_record \<Rightarrow> bool" where
  "row_saved db n record =
     (case db n [record] of Inr (Some rows) \<Rightarrow> rows \<noteq> [] | _ \<Rightarrow> False)"

section \<open>Stores of two pool tasks at the same time\<close>

text \<open>
  \<^verbatim>\<open>ThreadPoolExecutor\<close> runs up to \<^verbatim>\<open>max_workers\<close> tasks on threads of their own, and the
  client has no lock: the tasks share the reading cache. A task that has received an answer
  of status \<^verbatim>\<open>'OK'\<close> has three steps left in lines 110 to 117: the test of the capacity
  (line 110), the removal of the oldest entry when the test found the cache full (lines 112
  and 113, one step here), and the store (lines 114 to 117). \<open>storing\<close> is such a task: the
  key and the entry that it writes, and the step that it stands before. \<open>Raised\<close> is the
  \<^verbatim>\<open>ValueError\<close> of \<^verbatim>\<open>min\<close> on an empty cache.
\<close>

datatype store_pc = AtTest | AtEvict | AtStore | Returned | Raised

record storing =
  sg_key :: string
  sg_entry :: cache_entry
  sg_pc :: store_pc

text \<open>One step of a task on the shared cache.\<close>

fun storing_step ::
  "(string \<times> cache_entry) list \<Rightarrow> storing \<Rightarrow> (string \<times> cache_entry) list \<times> storing" where
  "storing_step c w =
     (case sg_pc w of
        AtTest \<Rightarrow>
          (c, w\<lparr>sg_pc := (if length c \<ge> MAX_CACHE_ENTRIES then AtEvict else AtStore)\<rparr>)
      | AtEvict \<Rightarrow>
          (case oldest c of
             Inl x \<Rightarrow> (c, w\<lparr>sg_pc := Raised\<rparr>)
           | Inr k \<Rightarrow> (AList.delete k c, w\<lparr>sg_pc := AtStore\<rparr>))
      | AtStore \<Rightarrow> (AList.update (sg_key w) (sg_entry w) c, w\<lparr>sg_pc := Returned\<rparr>)
      | Returned \<Rightarrow> (c, w)
      | Raised \<Rightarrow> (c, w))"

text \<open>
  A schedule names the task that makes the next step; a number that names no task is passed
  over. The result is the cache and the tasks after the last step of the schedule.
\<close>

fun interleave ::
  "nat list \<Rightarrow> (string \<times> cache_entry) list \<Rightarrow> storing list \<Rightarrow>
     (string \<times> cache_entry) list \<times> storing list" where
  "interleave [] c ws = (c, ws)"
| "interleave (i # rest) c ws =
     (if i < length ws
      then (case storing_step c (ws ! i) of (c1, w1) \<Rightarrow> interleave rest c1 (ws[i := w1]))
      else interleave rest c ws)"

declare storing_step.simps [simp del]

section \<open>Descriptors whose sensor id is any object\<close>

text \<open>
  An element of the inventory as the dict that it is. Line 164 writes
  \<^verbatim>\<open>sensor.get("sensor_company_id")\<close> under the key \<^verbatim>\<open>sensor_company_id\<close>: whatever the remote
  side sent there, \<^verbatim>\<open>None\<close> when it sent nothing. \<^verbatim>\<open>sensor_id[:8]\<close> (lines 92 and 197) is
  defined on a str and on a list; on \<^verbatim>\<open>None\<close>, a bool or a number it raises \<^verbatim>\<open>TypeError\<close>.
  On a dict it raises as well (\<^verbatim>\<open>TypeError\<close> up to Python 3.11, \<^verbatim>\<open>KeyError\<close> from 3.12 on;
  the former here). The f-string of the cache key and \<^verbatim>\<open>urlencode\<close> turn any id into text
  with \<^verbatim>\<open>str\<close>.
\<close>

fun sliceable :: "json \<Rightarrow> bool" where
  "sliceable (JStr s) = True"
| "sliceable (JArr xs) = True"
| "sliceable x = False"

fun py_slice8 :: "json \<Rightarrow> error + json" where
  "py_slice8 (JStr s) = Inr (JStr (take 8 s))"
| "py_slice8 (JArr xs) = Inr (JArr (take 8 xs))"
| "py_slice8 x = Inl TypeError"

text \<open>
  \<^verbatim>\<open>get_rainfall_data\<close> for such an id: the method of the section above, with the f-string
  of line 92, which is evaluated (after the clock was read) whether or not it is printed.
\<close>

definition get_rainfall_data_any ::
  "builtins \<Rightarrow> env \<Rightarrow> api \<Rightarrow> json \<Rightarrow> string \<Rightarrow> string \<Rightarrow> bool \<Rightarrow> (error + json) \<times> api" where
  "get_rainfall_data_any b e s sensor_company_id start_date end_date use_cache =
     (if \<not> truthy (access_token s) then (Inl LoginRequired, s)
      else
        (case (if use_cache
               then map_of (data_cache s)
                      (cache_key (py_str b sensor_company_id) start_date end_date)
               else None) of
           Some cached_data \<Rightarrow>
             (if now e s - ce_timestamp cached_data < CACHE_DURATION_SEC
              then (case py_slice8 sensor_company_id of
                      Inl x \<Rightarrow> (Inl x, tick s)
                    | Inr shown \<Rightarrow> (Inr (ce_data cached_data), tick s))
              else fetch_records e (tick s) (py_str b sensor_company_id) start_date end_date
                     use_cache)
         | None \<Rightarrow>
             fetch_records e s (py_str b sensor_company_id) start_date end_date use_cache))"

text \<open>The result tuple, and lines 200 to 209, for such an id.\<close>

type_synonym any_result = "json \<times> json \<times> json \<times> bool"

definition try_fetch_any ::
  "builtins \<Rightarrow> env \<Rightarrow> api \<Rightarrow> json \<Rightarrow> json \<Rightarrow> string \<Rightarrow> string \<Rightarrow> any_result \<times> api" where
  "try_fetch_any b e s sensor_id shown_name start_date end_date =
     (case get_rainfall_data_any b e s sensor_id start_date end_date True of
        (Inr data, s1) \<Rightarrow>
          ((sensor_id, data, shown_name, True),
           tick (s1\<lparr>last_processed_cache :=
             AList.update (cache_key (py_str b sensor_id) start_date end_date) (now e s1)
               (last_processed_cache s1)\<rparr>))
      | (Inl x, s1) \<Rightarrow> ((sensor_id, JNull, shown_name, False), s1))"

text \<open>Lines 185 to 189, on the dict.\<close>

definition display_name_any :: "(string \<times> json) list \<Rightarrow> json" where
  "display_name_any sensor_info =
     py_or (py_or (dict_get sensor_info ''device_name'' JNull)
                  (dict_get sensor_info ''device_id'' JNull)) (JStr ''Unknown'')"

text \<open>
  \<^verbatim>\<open>fetch_single_sensor_data\<close> on the dict. The f-string of line 197 stands on the path
  that skips a duplicate, after the clock was read and before the \<^verbatim>\<open>try\<close>: its exception
  leaves the method.
\<close>

definition fetch_single_sensor_data_any ::
  "builtins \<Rightarrow> env \<Rightarrow> api \<Rightarrow> (string \<times> json) list \<Rightarrow> string \<Rightarrow> string \<Rightarrow>
     (error + any_result) \<times> api" where
  "fetch_single_sensor_data_any b e s sensor_info start_date end_date =
     (case map_of sensor_info ''sensor_company_id'' of
        None \<Rightarrow> (Inl KeyError, s)
      | Some sensor_id \<Rightarrow>
          (case map_of (last_processed_cache s)
                  (cache_key (py_str b sensor_id) start_date end_date) of
             Some last_time \<Rightarrow>
               if now e s - last_time < DUPLICATE_SKIP_SEC
               then (case py_slice8 sensor_id of
                       Inl x \<Rightarrow> (Inl x, tick s)
                     | Inr shown \<Rightarrow>
                         (Inr (sensor_id, JNull, display_name_any sensor_info, True), tick s))
               else (case try_fetch_any b e (tick s) sensor_id (display_name_any sensor_info)
                            start_date end_date of
                       (r, s1) \<Rightarrow> (Inr r, s1))
           | None \<Rightarrow>
               (case try_fetch_any b e s sensor_id (display_name_any sensor_info)
                       start_date end_date of
                  (r, s1) \<Rightarrow> (Inr r, s1))))"

text \<open>The dict of a descriptor whose id is a str or is missing.\<close>

definition as_dict :: "sensor_info \<Rightarrow> (string \<times> json) list" where
  "as_dict si =
     (case si_sensor_company_id si of
        None \<Rightarrow> []
      | Some sensor_id \<Rightarrow> [(''sensor_company_id'', JStr sensor_id)])
     @ [(''device_id'', si_device_id si), (''device_name'', si_device_name si),
        (''gps_location_lat'', si_gps_location_lat si),
        (''gps_location_lng'', si_gps_location_lng si)]"

section \<open>transform\_rainfall\_data, statement by statement\<close>

text \<open>
  The method once more, as the statements that it runs on its frame: the two arguments and the
  two objects that it builds. A statement takes the frame and returns its value or its
  exception together with the frame as it leaves it. The statements that read an argument or a
  part of one (\<^verbatim>\<open>.items()\<close>, \<^verbatim>\<open>.get\<close>, indexing, iteration, \<^verbatim>\<open>str\<close>, \<^verbatim>\<open>float\<close>,
  \<^verbatim>\<open>json.dumps\<close>) write nothing; the dict comprehension of lines 281 to 284 assigns
  \<^verbatim>\<open>device_info_map\<close> once it is complete, and line 326 appends to
  \<^verbatim>\<open>transformed_records\<close>.
\<close>

record transform_frame =
  fr_rainfall_data :: "(string \<times> json) list"
  fr_sensors_with_device_info :: "sensor_info list"
  fr_device_info_map :: "(string \<times> sensor_info) list"
  fr_transformed_records :: "persistable_record list"

type_synonym 'a stmt = "transform_frame \<Rightarrow> (error + 'a) \<times> transform_frame"

text \<open>A \<^verbatim>\<open>for\<close> loop: the first exception of the body ends it.\<close>

fun for_each_stmt :: "('a \<Rightarrow> unit stmt) \<Rightarrow> 'a list \<Rightarrow> unit stmt" where
  "for_each_stmt body [] f = (Inr (), f)"
| "for_each_stmt body (x # xs) f =
     (case body x f of
        (Inl err, f1) \<Rightarrow> (Inl err, f1)
      | (Inr u, f1) \<Rightarrow> for_each_stmt body xs f1)"

text \<open>Lines 281 to 284.\<close>

definition build_device_info_map :: "unit stmt" where
  "build_device_info_map f =
     (case device_info_map [] (fr_sensors_with_device_info f) of
        Inl err \<Rightarrow> (Inl err, f)
      | Inr m \<Rightarrow> (Inr (), f\<lparr>fr_device_info_map := m\<rparr>))"

text \<open>
  Lines 304 to 326: the row is built as \<open>transform_record\<close> builds it, which returns it as
  a list of one row, and line 326 appends it.
\<close>

definition append_record ::
  "builtins \<Rightarrow> string \<Rightarrow> string \<Rightarrow> sensor_info option \<Rightarrow> json \<Rightarrow> json \<Rightarrow> unit stmt" where
  "append_record b current_time sensor_id device_info sensor_master sensor_record f =
     (case transform_record b current_time sensor_id device_info sensor_master sensor_record of
        Inl err \<Rightarrow> (Inl err, f)
      | Inr transformed_record \<Rightarrow>
          (Inr (), f\<lparr>fr_transformed_records :=
                       fr_transformed_records f @ transformed_record\<rparr>))"

text \<open>Lines 299 to 326.\<close>

definition group_stmt ::
  "builtins \<Rightarrow> string \<Rightarrow> string \<Rightarrow> sensor_info option \<Rightarrow> json \<Rightarrow> unit stmt" where
  "group_stmt b current_time sensor_id device_info record f =
     (case py_get record ''sensor_master'' (JObj []) of
        Inl err \<Rightarrow> (Inl err, f)
      | Inr sensor_master \<Rightarrow>
          (case py_get record ''sensor_records'' (JArr []) of
             Inl err \<Rightarrow> (Inl err, f)
           | Inr sensor_records \<Rightarrow>
               (case py_iter sensor_records of
                  Inl err \<Rightarrow> (Inl err, f)
                | Inr rs \<Rightarrow>
                    for_each_stmt
                      (append_record b current_time sensor_id device_info sensor_master) rs f)))"

text \<open>Lines 294 to 326: the body of the outer loop.\<close>

definition entry_stmt :: "builtins \<Rightarrow> string \<Rightarrow> string \<times> json \<Rightarrow> unit stmt" where
  "entry_stmt b current_time item f =
     (case item of (sensor_id, sensor_data) \<Rightarrow>
        if \<not> truthy sensor_data then (Inr (), f)
        else
          (case py_get sensor_data ''status'' JNull of
             Inl err \<Rightarrow> (Inl err, f)
           | Inr st \<Rightarrow>
               if st \<noteq> JStr ''OK'' then (Inr (), f)
               else
                 (let device_info = map_of (fr_device_info_map f) sensor_id in
                  case py_get sensor_data ''data'' (JObj []) of
                    Inl err \<Rightarrow> (Inl err, f)
                  | Inr d \<Rightarrow>
                      (case py_get d ''data'' (JArr []) of
                         Inl err \<Rightarrow> (Inl err, f)
                       | Inr records \<Rightarrow>
                           (case py_iter records of
                              Inl err \<Rightarrow> (Inl err, f)
                            | Inr gs \<Rightarrow>
                                for_each_stmt
                                  (group_stmt b current_time sensor_id device_info) gs f)))))"

text \<open>
  A call of the method: what it returns or raises, and the frame at that moment, whose first
  two fields are the arguments as the call leaves them to its caller.
\<close>

definition transform_call ::
  "builtins \<Rightarrow> string \<Rightarrow> (string \<times> json) list \<Rightarrow> sensor_info list \<Rightarrow>
     (error + persistable_record list) \<times> transform_frame" where
  "transform_call b current_time rainfall_data sensors_with_device_info =
     (let f0 = \<lparr>fr_rainfall_data = rainfall_data,
                 fr_sensors_with_device_info = sensors_with_device_info,
                 fr_device_info_map = [], fr_transformed_records = []\<rparr>
      in case build_device_info_map f0 of
           (Inl err, f1) \<Rightarrow> (Inl err, f1)
         | (Inr u, f1) \<Rightarrow>
             (case for_each_stmt (entry_stmt b current_time) (fr_rainfall_data f1) f1 of
                (Inl err, f2) \<Rightarrow> (Inl err, f2)
              | (Inr v, f2) \<Rightarrow> (Inr (fr_transformed_records f2), f2)))"

text \<open>
  A statement started in the frame \<open>f\<close> has the outcome \<open>out\<close> that the result \<open>r\<close> of a
  function describes: it raises the exception of \<open>r\<close> and leaves the arguments and the map
  alone, or it appends the rows of \<open>r\<close> and does nothing else.
\<close>

definition appends ::
  "transform_frame \<Rightarrow> error + persistable_record list \<Rightarrow> (error + unit) \<times> transform_frame
     \<Rightarrow> bool" where
  "appends f r out \<longleftrightarrow>
     (case r of
        Inl err \<Rightarrow> fst out = Inl err
          \<and> fr_rainfall_data (snd out) = fr_rainfall_data f
          \<and> fr_sensors_with_device_info (snd out) = fr_sensors_with_device_info f
          \<and> fr_device_info_map (snd out) = fr_device_info_map f
      | Inr rows \<Rightarrow> out = (Inr (), f\<lparr>fr_transformed_records := fr_transformed_records f @ rows\<rparr>))"

section \<open>A sample world\<close>

text \<open>
  Three sensors on one device. The clock advances one second with every reading. The remote
  side answers a records query for \<^verbatim>\<open>S3\<close> with a status that is not \<^verbatim>\<open>'OK'\<close> and any other
  one with one group of one reading; the first login yields a token, a later one an answer
  without \<^verbatim>\<open>accessToken\<close>.
\<close>

definition sample_reading :: json where
  "sample_reading =
     JObj [(''datetime'', JStr ''2024-01-01 00:00:00''), (''value_calibration'', JInt 2),
           (''value_raw'', JInt 3)]"

definition sample_payload :: json where
  "sample_payload =
     JObj [(''status'', JStr ''OK''),
           (''data'', JObj [(''data'', JArr [JObj [
              (''sensor_master'', JObj [(''sensor_name'', JStr ''rain''),
                                        (''sensor_unit'', JStr ''mm'')]),
              (''sensor_records'', JArr [sample_reading])]])])]"

definition sample_error :: json where
  "sample_error = JObj [(''status'', JStr ''ERROR'')]"

definition sample_device :: device where
  "sample_device =
     \<lparr>dv_fields = [(''device_id'', JStr ''D1''), (''device_name'', JStr ''Gauge'')],
      dv_sensor_companies = [''S1'', ''S2'', ''S3'']\<rparr>"

definition sample_login :: json where
  "sample_login =
     JObj [(''status'', JStr ''OK''),
           (''data'', JObj [(''accessToken'', JStr ''token''),
                            (''user'', JObj [(''company_id'', JInt 7)])])]"

definition world :: env where
  "world =
     \<lparr>clock = (\<lambda>n. real n),
      remote_login = (\<lambda>n email password.
         if n = 0 then Inr sample_login else Inr (JObj [(''status'', JStr ''OK'')])),
      remote_records = (\<lambda>n sensor_id start_date end_date.
         if sensor_id = ''S3'' then Inr sample_error else Inr sample_payload),
      remote_devices = (\<lambda>n company.
         Inr \<lparr>dr_status = JStr ''OK'', dr_devices = [sample_device]\<rparr>)\<rparr>"

text \<open>
  Stand-ins for the builtins, right on the values of this sample world: \<^verbatim>\<open>float\<close> of a
  bool, an int or a float, \<^verbatim>\<open>TypeError\<close> for \<^verbatim>\<open>float\<close> of a list or a dict; no text of
  the sample is a number, and the two serialisers answer with a fixed text.
\<close>

definition sample_builtins :: builtins where
  "sample_builtins =
     \<lparr>str_of = (\<lambda>x. ''object''),
      float_of = (\<lambda>x. case x of
         JBool c \<Rightarrow> Inr (if c then 1 else 0)
       | JInt i \<Rightarrow> Inr (real_of_int i)
       | JFloat r \<Rightarrow> Inr r
       | JStr t \<Rightarrow> Inl ValueError
       | _ \<Rightarrow> Inl TypeError),
      dumps = (\<lambda>x. Inr ''serialised''),
      dumps_plain = (\<lambda>x. Inr ''serialised'')\<rparr>"

definition logged_in :: api where
  "logged_in = init_api\<lparr>access_token := JStr ''token'', company_id := JInt 7\<rparr>"

text \<open>The client after its first query for \<^verbatim>\<open>S1\<close>.\<close>

definition after_first :: api where
  "after_first =
     logged_in\<lparr>data_cache := [(''S1_a_b'', \<lparr>ce_data = sample_payload, ce_timestamp = 0\<rparr>)],
       time_reads := 1, requests := [GetRecords ''S1'' ''a'' ''b'']\<rparr>"

text \<open>The descriptor that the flattening makes of a sensor of the sample device.\<close>

definition sample_sensor :: "string \<Rightarrow> sensor_info" where
  "sample_sensor sensor_id =
     \<lparr>si_sensor_company_id = Some sensor_id, si_device_id = JStr ''D1'',
      si_device_name = JStr ''Gauge'', si_gps_location_lat = JNull,
      si_gps_location_lng = JNull\<rparr>"

text \<open>The client after \<^verbatim>\<open>fetch_single_sensor_data\<close> has fetched \<^verbatim>\<open>S1\<close> once.\<close>

definition after_single :: api where
  "after_single =
     after_first\<lparr>last_processed_cache := [(''S1_a_b'', 1)], time_reads := 2\<rparr>"

text \<open>
  The client after a login, a listing of the sensors and a second login whose answer carries
  no token: the inventory cache is filled and stamped at second 0, the token is \<^verbatim>\<open>None\<close>.
\<close>

definition logged_out :: api where
  "logged_out =
     \<lparr>access_token = JNull, company_id = JNull,
      sensors_cache = Some [sample_sensor ''S1'', sample_sensor ''S2'', sample_sensor ''S3''],
      cache_timestamp = Some 0, last_processed_cache = [], data_cache = [],
      time_reads = 1,
      requests = [PostLogin ''u'' ''p'', GetDevices (JInt 7), PostLogin ''u'' ''p'']\<rparr>"

text \<open>A world whose only device lists the sensor \<^verbatim>\<open>S1\<close> twice.\<close>

definition twin_world :: env where
  "twin_world =
     world\<lparr>remote_devices := (\<lambda>n company.
        Inr \<lparr>dr_status = JStr ''OK'',
             dr_devices = [sample_device\<lparr>dv_sensor_companies := [''S1'', ''S1'']\<rparr>]\<rparr>)\<rparr>"

text \<open>What a result tuple contributes to the result map.\<close>

definition entry_of :: "fetch_result \<Rightarrow> string \<times> json" where
  "entry_of r = (fst r, fst (snd r))"

text \<open>The client after the listing, and after fetching all three sensors in CI mode.\<close>

definition sample_listed :: api where
  "sample_listed =
     logged_in\<lparr>sensors_cache :=
         Some [sample_sensor ''S1'', sample_sensor ''S2'', sample_sensor ''S3''],
       cache_timestamp := Some 0, time_reads := 1, requests := [GetDevices (JInt 7)]\<rparr>"

definition sample_fetched :: api where
  "sample_fetched =
     sample_listed\<lparr>last_processed_cache := [(''S1_a_b'', 3), (''S2_a_b'', 5)],
       data_cache := [(''S1_a_b'', \<lparr>ce_data = sample_payload, ce_timestamp = 2\<rparr>),
                      (''S2_a_b'', \<lparr>ce_data = sample_payload, ce_timestamp = 4\<rparr>)],
       time_reads := 7,
       requests := [GetDevices (JInt 7), GetRecords ''S1'' ''a'' ''b'',
                    GetRecords ''S2'' ''a'' ''b'', GetRecords ''S3'' ''a'' ''b'']\<rparr>"

text \<open>
  The batch of the sample run, the inventory, and the row that the transformer makes of the
  sample reading of a sensor at a given time.
\<close>

definition sample_batch :: "(string \<times> json) list" where
  "sample_batch = [(''S1'', sample_payload), (''S2'', sample_payload), (''S3'', JNull)]"

definition sample_sensors :: "sensor_info list" where
  "sample_sensors = [sample_sensor ''S1'', sample_sensor ''S2'', sample_sensor ''S3'']"

definition sample_row :: "string \<Rightarrow> string \<Rightarrow> persistable_record" where
  "sample_row t sensor_id =
     \<lparr>pr_sensor_company_id = sensor_id, pr_sensor_name = ''rain'', pr_sensor_unit = ''mm'',
      pr_device_id = Some ''D1'', pr_device_name = Some ''Gauge'',
      pr_gps_location_lat = None, pr_gps_location_lng = None,
      pr_datetime = JStr ''2024-01-01 00:00:00'',
      pr_value_calibration = Some 2, pr_value_raw = Some 3,
      pr_timestamp = t, pr_raw_data = ''serialised'', pr_created_at = t\<rparr>"

text \<open>
  A store that refuses its first insert (the batch) and its third (the second row of the
  retry) and writes all rows of any other insert; and three rows to save.
\<close>

definition flaky_store :: store where
  "flaky_store n rows = (if n = 0 \<or> n = 2 then Inl TransportError else Inr (Some rows))"

definition three_rows :: "persistable_record list" where
  "three_rows = [sample_row ''t'' ''S1'', sample_row ''t'' ''S2'', sample_row ''t'' ''S3'']"

text \<open>
  A client whose reading cache is full: \<open>MAX_CACHE_ENTRIES\<close> entries under the keys
  \<^verbatim>\<open>k\<close>, \<^verbatim>\<open>kk\<close>, \<^verbatim>\<open>kkk\<close> and so on, the \<open>n\<close>-th stamped at second \<open>n\<close>.
\<close>

definition full_cache :: "(string \<times> cache_entry) list" where
  "full_cache =
     map (\<lambda>n. (replicate (Suc n) CHR ''k'', \<lparr>ce_data = JNull, ce_timestamp = real n\<rparr>))
       [0..<MAX_CACHE_ENTRIES]"

definition full_api :: api where
  "full_api = logged_in\<lparr>data_cache := full_cache\<rparr>"

text \<open>
  A reading cache one entry short of full, and two tasks of the pool, each about to store
  the answer to its query.
\<close>

definition almost_full_cache :: "(string \<times> cache_entry) list" where
  "almost_full_cache =
     map (\<lambda>n. (replicate (Suc n) CHR ''k'',
               \<lparr>ce_data = sample_payload, ce_timestamp = real n\<rparr>))
       [0..<MAX_CACHE_ENTRIES - 1]"

definition two_stores :: "storing list" where
  "two_stores =
     [\<lparr>sg_key = ''S1_a_b'', sg_entry = \<lparr>ce_data = sample_payload, ce_timestamp = 600\<rparr>,
       sg_pc = AtTest\<rparr>,
      \<lparr>sg_key = ''S2_a_b'', sg_entry = \<lparr>ce_data = sample_payload, ce_timestamp = 601\<rparr>,
       sg_pc = AtTest\<rparr>]"





definition sample_frame :: "string \<Rightarrow> transform_frame" where
  "sample_frame t =
     \<lparr>fr_rainfall_data = sample_batch, fr_sensors_with_device_info = sample_sensors,
      fr_device_info_map = [(''S1'', sample_sensor ''S1''), (''S2'', sample_sensor ''S2''),
                            (''S3'', sample_sensor ''S3'')],
      fr_transformed_records = [sample_row t ''S1'', sample_row t ''S2'']\<rparr>"

section \<open>Properties of the client object\<close>

lemma tick_simps:
  "access_token (tick s) = access_token s" "company_id (tick s) = company_id s"
  "sensors_cache (tick s) = sensors_cache s" "cache_timestamp (tick s) = cache_timestamp s"
  "last_processed_cache (tick s) = last_processed_cache s" "data_cache (tick s) = data_cache s"
  "time_reads (tick s) = Suc (time_reads s)" "requests (tick s) = requests s"
  by (simp_all add: tick_def)

lemma sent_simps:
  "access_token (sent q s) = access_token s" "company_id (sent q s) = company_id s"
  "sensors_cache (sent q s) = sensors_cache s" "cache_timestamp (sent q s) = cache_timestamp s"
  "last_processed_cache (sent q s) = last_processed_cache s" "data_cache (sent q s) = data_cache s"
  "time_reads (sent q s) = time_reads s" "requests (sent q s) = requests s @ [q]"
  by (simp_all add: sent_def)

lemma now_simps:
  "now e (sent q s) = now e s" "now e (s\<lparr>data_cache := c\<rparr>) = now e s"
  "now e (s\<lparr>last_processed_cache := l\<rparr>) = now e s"
  by (simp_all add: now_def sent_def)

lemmas sample_defs =
  world_def logged_in_def init_api_def sample_payload_def sample_error_def sample_reading_def
  sample_device_def sample_login_def sample_sensor_def sample_builtins_def twin_world_def
  now_def tick_def sent_def cache_key_def
  CACHE_DURATION_SEC_def DUPLICATE_SKIP_SEC_def MAX_CACHE_ENTRIES_def

subsection \<open>The network branch of get\_rainfall\_data\<close>

lemma fetch_records_non_ok:
  assumes "fetch_records e s sid st en uc = (r, s')"
    and "remote_records e (length (requests s)) sid st en = Inr resp"
    and "py_get resp ''status'' JNull \<noteq> Inr (JStr ''OK'')"
  shows "r = (case py_get resp ''status'' JNull of
                Inl x \<Rightarrow> Inl x | Inr v \<Rightarrow> Inl (SensorQueryFailed resp))
         \<and> data_cache s' = data_cache s"
  using assms by (auto simp: fetch_records_def Let_def sent_simps split: sum.splits)

lemma fetch_records_Inl:
  "fetch_records e s sid st en uc = (Inl x, s') \<Longrightarrow> s' = sent (GetRecords sid st en) s"
  by (auto simp: fetch_records_def Let_def split: sum.splits if_splits)

lemma fetch_records_Inr:
  assumes "fetch_records e s sid st en uc = (Inr d, s')"
  shows "remote_records e (length (requests s)) sid st en = Inr d \<and>
         py_get d ''status'' JNull = Inr (JStr ''OK'') \<and>
         (if uc then \<exists>c. evict (data_cache s) = Inr c \<and>
              s' = tick (sent (GetRecords sid st en) s\<lparr>data_cache :=
                     AList.update (cache_key sid st en)
                       \<lparr>ce_data = d, ce_timestamp = now e s\<rparr> c\<rparr>)
          else s' = sent (GetRecords sid st en) s)"
  using assms
  by (auto simp: fetch_records_def Let_def sent_simps now_simps split: sum.splits if_splits)

subsection \<open>The three ways through get\_rainfall\_data\<close>

lemma get_rainfall_data_cases:
  assumes "get_rainfall_data e s sid st en uc = (r, s')"
  shows "(r = Inl LoginRequired \<and> s' = s \<and> \<not> truthy (access_token s))
       \<or> (\<exists>c. truthy (access_token s) \<and> uc
              \<and> map_of (data_cache s) (cache_key sid st en) = Some c
              \<and> now e s - ce_timestamp c < CACHE_DURATION_SEC
              \<and> r = Inr (ce_data c) \<and> s' = tick s)
       \<or> (truthy (access_token s)
          \<and> (\<exists>s0. (s0 = s \<or> s0 = tick s) \<and> fetch_records e s0 sid st en uc = (r, s')))"
  using assms by (auto simp: get_rainfall_data_def split: if_splits option.splits)

lemma get_rainfall_data_hit:
  assumes "truthy (access_token s)" "map_of (data_cache s) (cache_key sid st en) = Some c"
    "now e s - ce_timestamp c < CACHE_DURATION_SEC"
  shows "get_rainfall_data e s sid st en True = (Inr (ce_data c), tick s)"
  using assms by (simp add: get_rainfall_data_def)

text \<open>
  C7. A call of \<open>get_rainfall_data\<close> that issues a network request and receives a body whose
  \<^verbatim>\<open>status\<close> is not \<^verbatim>\<open>'OK'\<close> raises (the source's "query failed" exception, or
  \<^verbatim>\<open>AttributeError\<close> when the body is not a dict) and leaves the reading cache as it was;
  and whenever a call changes the reading cache, the remote side answered with status
  \<^verbatim>\<open>'OK'\<close> and that answer is what the call returns.
\<close>

theorem failed_response_is_not_cached:
  assumes "get_rainfall_data e s sid st en uc = (r, s')"
  shows "(requests s' \<noteq> requests s
          \<and> remote_records e (length (requests s)) sid st en = Inr resp
          \<and> py_get resp ''status'' JNull \<noteq> Inr (JStr ''OK'')
         \<longrightarrow> r = (case py_get resp ''status'' JNull of
                    Inl x \<Rightarrow> Inl x | Inr v \<Rightarrow> Inl (SensorQueryFailed resp))
             \<and> data_cache s' = data_cache s)
       \<and> (data_cache s' \<noteq> data_cache s
         \<longrightarrow> (\<exists>d. remote_records e (length (requests s)) sid st en = Inr d
                 \<and> py_get d ''status'' JNull = Inr (JStr ''OK'') \<and> r = Inr d))"
proof (intro conjI impI)
  assume a: "requests s' \<noteq> requests s
    \<and> remote_records e (length (requests s)) sid st en = Inr resp
    \<and> py_get resp ''status'' JNull \<noteq> Inr (JStr ''OK'')"
  with get_rainfall_data_cases[OF assms]
  show "r = (case py_get resp ''status'' JNull of
               Inl x \<Rightarrow> Inl x | Inr v \<Rightarrow> Inl (SensorQueryFailed resp))"
    by (auto simp: tick_simps dest!: fetch_records_non_ok)
  from a get_rainfall_data_cases[OF assms]
  show "data_cache s' = data_cache s"
    by (auto simp: tick_simps dest!: fetch_records_non_ok)
next
  assume a: "data_cache s' \<noteq> data_cache s"
  from get_rainfall_data_cases[OF assms] a
  obtain s0 where s0: "s0 = s \<or> s0 = tick s" "fetch_records e s0 sid st en uc = (r, s')"
    by (auto simp: tick_simps)
  show "\<exists>d. remote_records e (length (requests s)) sid st en = Inr d
          \<and> py_get d ''status'' JNull = Inr (JStr ''OK'') \<and> r = Inr d"
  proof (cases r)
    case (Inl x)
    with s0 a show ?thesis
      by (auto dest!: fetch_records_Inl simp: sent_simps tick_simps)
  next
    case (Inr d)
    with s0 show ?thesis
      by (auto dest!: fetch_records_Inr simp: tick_simps)
  qed
qed

theorem failed_response_is_not_cached_witness:
  "get_rainfall_data world logged_in ''S3'' ''a'' ''b'' True
     = (Inl (SensorQueryFailed sample_error), sent (GetRecords ''S3'' ''a'' ''b'') logged_in)
   \<and> requests (sent (GetRecords ''S3'' ''a'' ''b'') logged_in) \<noteq> requests logged_in
   \<and> remote_records world (length (requests logged_in)) ''S3'' ''a'' ''b'' = Inr sample_error
   \<and> py_get sample_error ''status'' JNull \<noteq> Inr (JStr ''OK'')
   \<and> data_cache (sent (GetRecords ''S3'' ''a'' ''b'') logged_in) = data_cache logged_in"
proof -
  have h: "get_rainfall_data world logged_in ''S3'' ''a'' ''b'' True
     = (Inl (SensorQueryFailed sample_error), sent (GetRecords ''S3'' ''a'' ''b'') logged_in)"
    by (simp add: get_rainfall_data_def fetch_records_def sample_defs)
  show ?thesis
    using h failed_response_is_not_cached[OF h, of sample_error]
    by (simp add: sample_defs)
qed

text \<open>
  C2. When \<open>get_rainfall_data\<close> with \<^verbatim>\<open>use_cache\<close> returns a payload, the reading cache holds
  that payload under the key of the query, stamped with the last clock reading of the call
  when the call went to the network. Any later call for the same sensor and window that finds
  this entry while the clock shows less than \<open>CACHE_DURATION_SEC\<close> past the stamp returns
  the same payload and issues no network request.
\<close>

theorem cache_hit_within_ttl:
  assumes "get_rainfall_data e s sid st en True = (Inr d, s1)"
  shows "\<exists>c. map_of (data_cache s1) (cache_key sid st en) = Some c \<and> ce_data c = d
           \<and> truthy (access_token s1)
           \<and> (requests s1 \<noteq> requests s \<longrightarrow> ce_timestamp c = clock e (time_reads s1 - 1))
           \<and> (\<forall>s2. truthy (access_token s2)
                  \<and> map_of (data_cache s2) (cache_key sid st en) = Some c
                  \<and> now e s2 - ce_timestamp c < CACHE_DURATION_SEC
                \<longrightarrow> get_rainfall_data e s2 sid st en True = (Inr d, tick s2)
                    \<and> requests (tick s2) = requests s2)"
  using get_rainfall_data_cases[OF assms]
  apply (elim disjE exE conjE)
    apply simp
   apply (auto simp: tick_simps get_rainfall_data_hit)[1]
  apply (auto dest!: fetch_records_Inr
      simp: tick_simps sent_simps update_conv' get_rainfall_data_hit now_def)
  done

theorem cache_hit_within_ttl_witness:
  "get_rainfall_data world logged_in ''S1'' ''a'' ''b'' True = (Inr sample_payload, after_first)
   \<and> get_rainfall_data world after_first ''S1'' ''a'' ''b'' True
       = (Inr sample_payload, tick after_first)
   \<and> requests (tick after_first) = requests after_first"
proof -
  have h: "get_rainfall_data world logged_in ''S1'' ''a'' ''b'' True
             = (Inr sample_payload, after_first)"
    by (simp add: get_rainfall_data_def fetch_records_def evict_def after_first_def sample_defs)
  from cache_hit_within_ttl[OF h] obtain c where
    c: "map_of (data_cache after_first) (cache_key ''S1'' ''a'' ''b'') = Some c"
      "truthy (access_token after_first)"
      "requests after_first \<noteq> requests logged_in
         \<longrightarrow> ce_timestamp c = clock world (time_reads after_first - 1)"
    and hit: "\<And>s2. truthy (access_token s2)
           \<Longrightarrow> map_of (data_cache s2) (cache_key ''S1'' ''a'' ''b'') = Some c
           \<Longrightarrow> now world s2 - ce_timestamp c < CACHE_DURATION_SEC
           \<Longrightarrow> get_rainfall_data world s2 ''S1'' ''a'' ''b'' True = (Inr sample_payload, tick s2)
               \<and> requests (tick s2) = requests s2"
    by blast
  have "ce_timestamp c = 0"
    using c(3) by (simp add: after_first_def sample_defs)
  then have "now world after_first - ce_timestamp c < CACHE_DURATION_SEC"
    by (simp add: after_first_def sample_defs)
  from hit[OF c(2) c(1) this] h show ?thesis by simp
qed

subsection \<open>Eviction and the bound on the reading cache\<close>


lemma older_in: "foldl older x xs \<in> set (x # xs)"
  by (induction xs arbitrary: x) (auto simp: older_def)

lemma older_le: "ce_timestamp (snd (older x a)) \<le> ce_timestamp (snd x)"
  "ce_timestamp (snd (older x a)) \<le> ce_timestamp (snd a)"
  by (simp_all add: older_def)

lemma older_mono: "ce_timestamp (snd (foldl older m xs)) \<le> ce_timestamp (snd m)"
proof (induction xs arbitrary: m)
  case Nil
  show ?case by simp
next
  case (Cons a xs)
  have "ce_timestamp (snd (foldl older (older m a) xs)) \<le> ce_timestamp (snd (older m a))"
    by (rule Cons.IH)
  also have "\<dots> \<le> ce_timestamp (snd m)"
    by (rule older_le)
  finally show ?case by simp
qed

lemma older_least:
  "y \<in> set (x # xs) \<Longrightarrow> ce_timestamp (snd (foldl older x xs)) \<le> ce_timestamp (snd y)"
proof (induction xs arbitrary: x)
  case Nil
  then show ?case by simp
next
  case (Cons a xs)
  consider "y = x" | "y = a" | "y \<in> set xs"
    using Cons.prems by auto
  then show ?case
  proof cases
    case 1
    then show ?thesis using older_mono[of x "a # xs"] by simp
  next
    case 2
    have "ce_timestamp (snd (foldl older (older x a) xs)) \<le> ce_timestamp (snd (older x a))"
      by (rule older_mono)
    also have "\<dots> \<le> ce_timestamp (snd a)"
      by (rule older_le)
    finally show ?thesis using 2 by simp
  next
    case 3
    then show ?thesis using Cons.IH[of "older x a"] by simp
  qed
qed

lemma oldest_Inr:
  assumes "oldest c = Inr k"
  shows "\<exists>v. (k, v) \<in> set c \<and> (\<forall>y\<in>set c. ce_timestamp v \<le> ce_timestamp (snd y))"
proof (cases c)
  case Nil with assms show ?thesis by simp
next
  case (Cons x xs)
  let ?m = "foldl older x xs"
  have "k = fst ?m" using assms Cons by simp
  moreover have "?m \<in> set c" using older_in[of x xs] Cons by simp
  moreover have "\<forall>y\<in>set c. ce_timestamp (snd ?m) \<le> ce_timestamp (snd y)"
    using older_least[of _ x xs] Cons by blast
  ultimately show ?thesis by (metis prod.collapse)
qed

lemma length_update_le: "length (AList.update k v c) \<le> Suc (length c)"
  by (induction c) auto

lemma length_delete_less: "k \<in> fst ` set c \<Longrightarrow> length (AList.delete k c) < length c"
proof (induction c)
  case Nil then show ?case by simp
next
  case (Cons a c)
  show ?case
  proof (cases "fst a = k")
    case True
    then show ?thesis using length_delete_le[of k c] by (cases a) (simp add: less_Suc_eq_le)
  next
    case False
    then have "k \<in> fst ` set c" using Cons.prems by auto
    from Cons.IH[OF this] False show ?thesis by (cases a) auto
  qed
qed

lemma evict_Inr:
  assumes "evict c = Inr c'"
  shows "(length c < MAX_CACHE_ENTRIES \<and> c' = c)
       \<or> (length c \<ge> MAX_CACHE_ENTRIES \<and> (\<exists>k v. (k, v) \<in> set c
             \<and> (\<forall>y\<in>set c. ce_timestamp v \<le> ce_timestamp (snd y)) \<and> c' = AList.delete k c))"
  using assms
  by (auto simp: evict_def split: if_splits sum.splits dest!: oldest_Inr)

lemma evict_length:
  assumes "evict c = Inr c'" "length c \<le> MAX_CACHE_ENTRIES"
  shows "length c' < MAX_CACHE_ENTRIES"
proof -
  from evict_Inr[OF assms(1)] show ?thesis
  proof
    assume "length c < MAX_CACHE_ENTRIES \<and> c' = c" then show ?thesis by simp
  next
    assume "length c \<ge> MAX_CACHE_ENTRIES \<and> (\<exists>k v. (k, v) \<in> set c
             \<and> (\<forall>y\<in>set c. ce_timestamp v \<le> ce_timestamp (snd y)) \<and> c' = AList.delete k c)"
    then obtain k v where kv: "(k, v) \<in> set c" "c' = AList.delete k c" by blast
    then have "k \<in> fst ` set c" by force
    from length_delete_less[OF this] kv assms(2) show ?thesis by simp
  qed
qed

lemma evict_distinct: "evict c = Inr c' \<Longrightarrow> distinct (map fst c) \<Longrightarrow> distinct (map fst c')"
  by (auto dest!: evict_Inr simp: distinct_delete)

lemma fetch_records_cache_ok:
  assumes "fetch_records e s sid st en uc = (r, s')" "cache_ok s"
  shows "cache_ok s'"
proof (cases r)
  case (Inl x)
  with assms show ?thesis by (auto dest!: fetch_records_Inl simp: cache_ok_def sent_simps)
next
  case (Inr d)
  show ?thesis
  proof (cases uc)
    case False
    with Inr assms show ?thesis by (auto dest!: fetch_records_Inr simp: cache_ok_def sent_simps)
  next
    case True
    with Inr assms(1) obtain c where c: "evict (data_cache s) = Inr c"
      "data_cache s' = AList.update (cache_key sid st en) \<lparr>ce_data = d, ce_timestamp = now e s\<rparr> c"
      by (auto dest!: fetch_records_Inr simp: tick_simps)
    from evict_length[OF c(1)] evict_distinct[OF c(1)] assms(2)
    have "length c < MAX_CACHE_ENTRIES" "distinct (map fst c)" by (auto simp: cache_ok_def)
    moreover have "length (data_cache s') \<le> Suc (length c)"
      unfolding c(2) by (rule length_update_le)
    ultimately show ?thesis using c(2)
      by (simp add: cache_ok_def distinct_update)
  qed
qed

lemma get_rainfall_data_cache_ok:
  assumes "get_rainfall_data e s sid st en uc = (r, s')" "cache_ok s"
  shows "cache_ok s'"
proof -
  have t: "cache_ok (tick s)" using assms(2) by (simp add: cache_ok_def tick_simps)
  from get_rainfall_data_cases[OF assms(1)] show ?thesis
    using assms(2) t by (auto dest: fetch_records_cache_ok)
qed

lemma login_data_cache: "login e s em pw = (r, s') \<Longrightarrow> data_cache s' = data_cache s"
  by (auto simp: login_def Let_def sent_simps split: sum.splits if_splits)

lemma fetch_devices_data_cache:
  "fetch_devices b e s t = (r, s') \<Longrightarrow> data_cache s' = data_cache s"
  by (auto simp: fetch_devices_def Let_def sent_simps split: sum.splits if_splits)

lemma sensors_data_cache:
  "get_all_rainfall_sensors_with_device_info b e s = (r, s') \<Longrightarrow> data_cache s' = data_cache s"
  by (auto simp: get_all_rainfall_sensors_with_device_info_def Let_def tick_simps
      split: option.splits if_splits dest!: fetch_devices_data_cache)

lemma try_fetch_cache_ok:
  assumes "try_fetch e s sid name st en = (r, s')" "cache_ok s"
  shows "cache_ok s'"
proof (cases "get_rainfall_data e s sid st en True")
  case (Pair q s1)
  then have "cache_ok s1" using assms(2) by (rule get_rainfall_data_cache_ok)
  then show ?thesis using assms(1) Pair
    by (auto simp: try_fetch_def cache_ok_def tick_simps split: sum.splits)
qed

lemma fetch_single_cache_ok:
  assumes "fetch_single_sensor_data e s si st en = (r, s')" "cache_ok s"
  shows "cache_ok s'"
proof -
  have t: "cache_ok (tick s)" using assms(2) by (simp add: cache_ok_def tick_simps)
  show ?thesis using assms t
    by (auto simp: fetch_single_sensor_data_def split: option.splits if_splits prod.splits
        dest: try_fetch_cache_ok)
qed

lemma run_tasks_cache_ok:
  "run_tasks e s sis st en = (rs, s') \<Longrightarrow> cache_ok s \<Longrightarrow> cache_ok s'"
proof (induction sis arbitrary: s rs s')
  case Nil
  then show ?case by simp
next
  case (Cons si sis)
  obtain r s1 where a: "fetch_single_sensor_data e s si st en = (r, s1)"
    by (cases "fetch_single_sensor_data e s si st en")
  obtain rs' s2 where b: "run_tasks e s1 sis st en = (rs', s2)"
    by (cases "run_tasks e s1 sis st en")
  from a b Cons.prems(1) have "s' = s2" by simp
  moreover have "cache_ok s1" using a Cons.prems(2) by (rule fetch_single_cache_ok)
  ultimately show ?case using Cons.IH[OF b] by simp
qed

lemma fetch_all_cache_ok:
  assumes "fetch_all_rainfall_data_parallel b e ci s st en w = (r, s')" "cache_ok s"
  shows "cache_ok s'"
proof (cases "get_all_rainfall_sensors_with_device_info b e s")
  case (Pair q s1)
  then have s1: "cache_ok s1" using assms(2) by (auto dest!: sensors_data_cache simp: cache_ok_def)
  show ?thesis
  proof (cases q)
    case (Inl x)
    with Pair assms(1) s1 show ?thesis by (simp add: fetch_all_rainfall_data_parallel_def)
  next
    case (Inr sis)
    have t: "cache_ok (tick s1)" using s1 by (simp add: cache_ok_def tick_simps)
    obtain rs s3 where rt: "run_tasks e (tick s1) sis st en = (rs, s3)"
      by (cases "run_tasks e (tick s1) sis st en")
    then have "cache_ok s3" using t by (rule run_tasks_cache_ok)
    then show ?thesis using assms(1) Pair Inr rt t
      by (auto simp: fetch_all_rainfall_data_parallel_def Let_def cache_ok_def tick_simps
          split: if_splits sum.splits)
  qed
qed

lemma reachable_cache_ok: "reachable b e s \<Longrightarrow> cache_ok s"
proof (induction rule: reachable.induct)
  case constructed
  show ?case by (simp add: cache_ok_def init_api_def)
next
  case (after_login s email password r s')
  then show ?case by (auto dest!: login_data_cache simp: cache_ok_def)
next
  case (after_get_rainfall_data s sid st en uc r s')
  then show ?case by (auto dest: get_rainfall_data_cache_ok)
next
  case (after_get_all_rainfall_sensors s q s')
  then show ?case by (auto dest!: sensors_data_cache simp: cache_ok_def)
next
  case (after_fetch_single_sensor_data s sensor_info st en p s')
  then show ?case by (auto dest: fetch_single_cache_ok)
next
  case (after_fetch_all_rainfall_data_parallel s ci st en workers a s')
  then show ?case by (auto dest: fetch_all_cache_ok)
qed

lemma store_evicts_oldest:
  assumes a: "get_rainfall_data e t sid st en True = (Inr d, t')"
    and rq: "requests t' \<noteq> requests t"
    and full: "length (data_cache t) \<ge> MAX_CACHE_ENTRIES"
  shows "\<exists>k c. (k, c) \<in> set (data_cache t)
             \<and> (\<forall>x\<in>set (data_cache t). ce_timestamp c \<le> ce_timestamp (snd x))
             \<and> data_cache t' =
                 AList.update (cache_key sid st en)
                   \<lparr>ce_data = d, ce_timestamp = clock e (time_reads t' - 1)\<rparr>
                   (AList.delete k (data_cache t))"
proof -
  from get_rainfall_data_cases[OF a] rq
  obtain t0 where t0: "t0 = t \<or> t0 = tick t" "fetch_records e t0 sid st en True = (Inr d, t')"
    by (auto simp: tick_simps)
  from fetch_records_Inr[OF t0(2)] obtain c where
    c: "evict (data_cache t0) = Inr c"
       "t' = tick (sent (GetRecords sid st en) t0\<lparr>data_cache :=
              AList.update (cache_key sid st en) \<lparr>ce_data = d, ce_timestamp = now e t0\<rparr> c\<rparr>)"
    by auto
  have dc: "data_cache t0 = data_cache t" using t0(1) by (auto simp: tick_simps)
  from evict_Inr[OF c(1)] full dc obtain k v where
    kv: "(k, v) \<in> set (data_cache t)"
        "\<forall>y\<in>set (data_cache t). ce_timestamp v \<le> ce_timestamp (snd y)"
        "c = AList.delete k (data_cache t)"
    by auto
  have "now e t0 = clock e (time_reads t' - 1)"
    by (simp add: c(2) tick_simps sent_simps now_def)
  then have "data_cache t' = AList.update (cache_key sid st en)
                   \<lparr>ce_data = d, ce_timestamp = clock e (time_reads t' - 1)\<rparr>
                   (AList.delete k (data_cache t))"
    using c(2) kv(3) by (simp add: tick_simps)
  with kv show ?thesis by blast
qed

text \<open>
  C3, amended. In every state that the client reaches from its constructor through calls of
  its methods that run one after the other, the tasks of the pool among them, the reading cache
  has at most \<open>MAX_CACHE_ENTRIES\<close> entries (under pairwise different keys). When a call of \<open>get_rainfall_data\<close> stores an answer while the cache holds
  \<open>MAX_CACHE_ENTRIES\<close> entries, exactly one key is deleted before the store, and its entry has
  the least timestamp of all entries of the cache, whatever its key is.
\<close>

theorem cache_bounded_oldest_evicted:
  "(reachable b e s \<longrightarrow>
      length (data_cache s) \<le> MAX_CACHE_ENTRIES \<and> distinct (map fst (data_cache s)))
   \<and> (get_rainfall_data e t sid st en True = (Inr d, t') \<and> requests t' \<noteq> requests t
        \<and> length (data_cache t) \<ge> MAX_CACHE_ENTRIES
      \<longrightarrow> (\<exists>k c. (k, c) \<in> set (data_cache t)
             \<and> (\<forall>x\<in>set (data_cache t). ce_timestamp c \<le> ce_timestamp (snd x))
             \<and> data_cache t' =
                 AList.update (cache_key sid st en)
                   \<lparr>ce_data = d, ce_timestamp = clock e (time_reads t' - 1)\<rparr>
                   (AList.delete k (data_cache t))))"
proof (rule conjI)
  show "reachable b e s \<longrightarrow>
      length (data_cache s) \<le> MAX_CACHE_ENTRIES \<and> distinct (map fst (data_cache s))"
    using reachable_cache_ok[of b e s] by (simp add: cache_ok_def)
  show "get_rainfall_data e t sid st en True = (Inr d, t') \<and> requests t' \<noteq> requests t
        \<and> length (data_cache t) \<ge> MAX_CACHE_ENTRIES
      \<longrightarrow> (\<exists>k c. (k, c) \<in> set (data_cache t)
             \<and> (\<forall>x\<in>set (data_cache t). ce_timestamp c \<le> ce_timestamp (snd x))
             \<and> data_cache t' =
                 AList.update (cache_key sid st en)
                   \<lparr>ce_data = d, ce_timestamp = clock e (time_reads t' - 1)\<rparr>
                   (AList.delete k (data_cache t)))"
    using store_evicts_oldest[of e t sid st en d t'] by blast
qed

lemma oldest_nonempty: "c \<noteq> [] \<Longrightarrow> \<exists>k. oldest c = Inr k"
  by (cases c) auto

lemma full_cache_length: "length full_cache = MAX_CACHE_ENTRIES"
  by (simp add: full_cache_def)

lemma full_cache_miss: "map_of full_cache (cache_key ''S1'' ''a'' ''b'') = None"
  by (auto simp: map_of_eq_None_iff full_cache_def cache_key_def)

theorem cache_bounded_oldest_evicted_witness:
  "reachable sample_builtins world init_api
   \<and> length (data_cache init_api) \<le> MAX_CACHE_ENTRIES
   \<and> length (data_cache full_api) \<ge> MAX_CACHE_ENTRIES
   \<and> fst (get_rainfall_data world full_api ''S1'' ''a'' ''b'' True) = Inr sample_payload
   \<and> (\<exists>k c. (k, c) \<in> set (data_cache full_api)
         \<and> (\<forall>x\<in>set (data_cache full_api). ce_timestamp c \<le> ce_timestamp (snd x))
         \<and> data_cache (snd (get_rainfall_data world full_api ''S1'' ''a'' ''b'' True)) =
             AList.update (cache_key ''S1'' ''a'' ''b'')
               \<lparr>ce_data = sample_payload, ce_timestamp = 0\<rparr>
               (AList.delete k (data_cache full_api)))"
proof -
  let ?t' = "snd (get_rainfall_data world full_api ''S1'' ''a'' ''b'' True)"
  have len: "length (data_cache full_api) \<ge> MAX_CACHE_ENTRIES"
    by (simp add: full_api_def full_cache_length)
  have "full_cache \<noteq> []"
    using full_cache_length by (auto simp: MAX_CACHE_ENTRIES_def)
  then obtain k where k: "oldest full_cache = Inr k"
    using oldest_nonempty by blast
  have run: "get_rainfall_data world full_api ''S1'' ''a'' ''b'' True =
      (Inr sample_payload,
       tick (sent (GetRecords ''S1'' ''a'' ''b'') full_api\<lparr>data_cache :=
         AList.update (cache_key ''S1'' ''a'' ''b'')
           \<lparr>ce_data = sample_payload, ce_timestamp = now world full_api\<rparr>
           (AList.delete k full_cache)\<rparr>))"
    using full_cache_miss k
    by (simp add: get_rainfall_data_def fetch_records_def evict_def full_cache_length
        full_api_def logged_in_def init_api_def world_def sample_payload_def sent_simps
        now_simps Let_def)
  then have h: "get_rainfall_data world full_api ''S1'' ''a'' ''b'' True = (Inr sample_payload, ?t')"
    by simp
  have rq: "requests ?t' \<noteq> requests full_api"
    by (simp add: run tick_simps sent_simps)
  have "time_reads ?t' = Suc (time_reads full_api)"
    by (simp add: run tick_simps sent_simps)
  then have t0: "clock world (time_reads ?t' - 1) = 0"
    by (simp add: full_api_def logged_in_def init_api_def world_def)
  have start: "reachable sample_builtins world init_api"
    by (rule reachable.constructed)
  have f: "fst (get_rainfall_data world full_api ''S1'' ''a'' ''b'' True) = Inr sample_payload"
    by (simp add: run)
  have i: "length (data_cache init_api) \<le> MAX_CACHE_ENTRIES"
    by (simp add: init_api_def)
  from cache_bounded_oldest_evicted[of sample_builtins world init_api full_api "''S1''" "''a''" "''b''" sample_payload ?t']
    h rq len
  have "\<exists>k c. (k, c) \<in> set (data_cache full_api)
         \<and> (\<forall>x\<in>set (data_cache full_api). ce_timestamp c \<le> ce_timestamp (snd x))
         \<and> data_cache ?t' =
             AList.update (cache_key ''S1'' ''a'' ''b'')
               \<lparr>ce_data = sample_payload, ce_timestamp = clock world (time_reads ?t' - 1)\<rparr>
               (AList.delete k (data_cache full_api))"
    by blast
  then show ?thesis
    unfolding t0 using start len f i by blast
qed

lemma alone_is_evict_then_store:
  "fst (interleave [0, 0, 0] c [\<lparr>sg_key = k, sg_entry = v, sg_pc = AtTest\<rparr>])
     = (case evict c of Inl x \<Rightarrow> c | Inr c1 \<Rightarrow> AList.update k v c1)"
  by (auto simp: storing_step.simps evict_def split: sum.splits)

lemma update_fresh_length:
  "k \<notin> fst ` set al \<Longrightarrow> length (AList.update k v al) = Suc (length al)"
  by (induction al) auto

lemma almost_full_length: "length almost_full_cache = MAX_CACHE_ENTRIES - 1"
  by (simp add: almost_full_cache_def)

lemma almost_full_keys: "k \<in> fst ` set almost_full_cache \<Longrightarrow> hd k = CHR ''k''"
  by (auto simp: almost_full_cache_def)

text \<open>
  The claim as stated fails when two tasks of the pool store at the same time: the cache
  holds 499 entries, both tasks test the capacity before either of them stores, and the two
  stores leave 501 entries.
\<close>

theorem two_racing_stores_exceed_the_bound:
  "length almost_full_cache = 499
   \<and> length (fst (interleave [0, 1, 0, 1] almost_full_cache two_stores)) = 501
   \<and> MAX_CACHE_ENTRIES = 500"
proof -
  let ?w1 = "\<lparr>sg_key = ''S1_a_b'', sg_entry = \<lparr>ce_data = sample_payload, ce_timestamp = 600\<rparr>,
       sg_pc = AtTest\<rparr>"
  let ?w2 = "\<lparr>sg_key = ''S2_a_b'', sg_entry = \<lparr>ce_data = sample_payload, ce_timestamp = 601\<rparr>,
       sg_pc = AtTest\<rparr>"
  let ?c1 = "AList.update ''S1_a_b'' \<lparr>ce_data = sample_payload, ce_timestamp = 600\<rparr>
       almost_full_cache"
  let ?c2 = "AList.update ''S2_a_b'' \<lparr>ce_data = sample_payload, ce_timestamp = 601\<rparr> ?c1"
  have len: "length almost_full_cache = 499"
    by (simp add: almost_full_length MAX_CACHE_ENTRIES_def)
  let ?w1s = "\<lparr>sg_key = ''S1_a_b'', sg_entry = \<lparr>ce_data = sample_payload, ce_timestamp = 600\<rparr>,
       sg_pc = AtStore\<rparr>"
  let ?w2s = "\<lparr>sg_key = ''S2_a_b'', sg_entry = \<lparr>ce_data = sample_payload, ce_timestamp = 601\<rparr>,
       sg_pc = AtStore\<rparr>"
  have t: "storing_step almost_full_cache ?w1 = (almost_full_cache, ?w1s)"
    "storing_step almost_full_cache ?w2 = (almost_full_cache, ?w2s)"
    by (simp_all add: storing_step.simps len MAX_CACHE_ENTRIES_def)
  have s1: "fst (storing_step almost_full_cache ?w1s) = ?c1"
    by (simp add: storing_step.simps)
  have s2: "fst (storing_step ?c1 ?w2s) = ?c2"
    by (simp add: storing_step.simps)
  have run: "fst (interleave [0, 1, 0, 1] almost_full_cache two_stores) = ?c2"
    by (simp add: two_stores_def t s1 s2 split_beta)
  have f1: "''S1_a_b'' \<notin> fst ` set almost_full_cache"
    using almost_full_keys[of "''S1_a_b''"] by auto
  have f2: "''S2_a_b'' \<notin> fst ` set almost_full_cache"
    using almost_full_keys[of "''S2_a_b''"] by auto
  have l1: "length ?c1 = 500"
    using update_fresh_length[OF f1] len by simp
  have "''S2_a_b'' \<notin> fst ` set ?c1"
    using f2 by (simp add: dom_update)
  from update_fresh_length[OF this] l1 have "length ?c2 = 501" by simp
  with run len show ?thesis by (simp add: MAX_CACHE_ENTRIES_def)
qed

subsection \<open>The dedup ledger\<close>


lemma get_rainfall_data_ledger:
  "get_rainfall_data e s sid st en uc = (r, s') \<Longrightarrow> last_processed_cache s' = last_processed_cache s"
  by (auto simp: get_rainfall_data_def fetch_records_def Let_def tick_simps sent_simps
      split: if_splits option.splits sum.splits)

lemma try_fetch_cases:
  assumes "try_fetch e s sid name st en = (r, s')"
  shows "(\<exists>d s1. get_rainfall_data e s sid st en True = (Inr d, s1) \<and> r = (sid, d, name, True)
            \<and> s' = tick (s1\<lparr>last_processed_cache :=
                 AList.update (cache_key sid st en) (now e s1) (last_processed_cache s1)\<rparr>))
       \<or> (\<exists>x. get_rainfall_data e s sid st en True = (Inl x, s') \<and> r = (sid, JNull, name, False))"
  using assms by (auto simp: try_fetch_def split: prod.splits sum.splits)

lemma fetch_single_cases:
  assumes "si_sensor_company_id si = Some sid"
  shows "(\<exists>t. map_of (last_processed_cache s) (cache_key sid st en) = Some t
             \<and> now e s - t < DUPLICATE_SKIP_SEC
             \<and> fetch_single_sensor_data e s si st en
                 = (Inr (sid, JNull, display_name si, True), tick s))
       \<or> (\<exists>s0 r s'. (s0 = s \<or> s0 = tick s)
             \<and> try_fetch e s0 sid (display_name si) st en = (r, s')
             \<and> fetch_single_sensor_data e s si st en = (Inr r, s'))"
  using assms
  by (auto simp: fetch_single_sensor_data_def split: option.splits prod.splits)

lemma fetch_single_skip:
  assumes "si_sensor_company_id si = Some sid"
    "map_of (last_processed_cache s) (cache_key sid st en) = Some t"
    "now e s - t < DUPLICATE_SKIP_SEC"
  shows "fetch_single_sensor_data e s si st en = (Inr (sid, JNull, display_name si, True), tick s)"
  using assms by (simp add: fetch_single_sensor_data_def)

lemma fetch_single_Inr_id:
  "fetch_single_sensor_data e s si st en = (Inr (sid, p, name, ok), s1) \<Longrightarrow>
     si_sensor_company_id si = Some sid \<and> name = display_name si"
  by (auto simp: fetch_single_sensor_data_def try_fetch_def
      split: option.splits prod.splits if_splits sum.splits)

text \<open>
  C1. When \<open>fetch_single_sensor_data\<close> reports success for a sensor and window, the dedup
  ledger holds a stamp under the key \<^verbatim>\<open>f"{sensor_id}_{start}_{end}"\<close>; when the call
  fetched a payload, the stamp is the clock reading taken after the fetch. Any later request for
  the same sensor and window that finds this stamp while the clock shows less than
  \<open>DUPLICATE_SKIP_SEC\<close> past it returns the null payload marked successful, and the list of
  network requests is what it was before the request.
\<close>

theorem duplicate_request_is_skipped:
  assumes "fetch_single_sensor_data e s si st en = (Inr (sid, p, name, True), s1)"
  shows "\<exists>t. map_of (last_processed_cache s1) (cache_key sid st en) = Some t
     \<and> (p \<noteq> JNull \<longrightarrow> t = clock e (time_reads s1 - 1))
     \<and> (\<forall>s2. map_of (last_processed_cache s2) (cache_key sid st en) = Some t
              \<and> now e s2 - t < DUPLICATE_SKIP_SEC
          \<longrightarrow> fetch_single_sensor_data e s2 si st en = (Inr (sid, JNull, name, True), tick s2)
             \<and> requests (tick s2) = requests s2)"
proof -
  from fetch_single_Inr_id[OF assms] have id: "si_sensor_company_id si = Some sid"
    and nm: "name = display_name si" by auto
  have later: "\<And>t s2. map_of (last_processed_cache s2) (cache_key sid st en) = Some t
              \<and> now e s2 - t < DUPLICATE_SKIP_SEC
          \<longrightarrow> fetch_single_sensor_data e s2 si st en = (Inr (sid, JNull, name, True), tick s2)
             \<and> requests (tick s2) = requests s2"
    using fetch_single_skip[OF id] nm by (auto simp: tick_simps)
  from fetch_single_cases[OF id, of s st en e]
  consider (skip) t where "map_of (last_processed_cache s) (cache_key sid st en) = Some t"
      "fetch_single_sensor_data e s si st en = (Inr (sid, JNull, display_name si, True), tick s)"
    | (fetch) s0 r s' where "try_fetch e s0 sid (display_name si) st en = (r, s')"
      "fetch_single_sensor_data e s si st en = (Inr r, s')"
    by blast
  then show ?thesis
  proof cases
    case skip
    with assms have "p = JNull" "s1 = tick s" by auto
    with skip(1) later show ?thesis by (auto simp: tick_simps)
  next
    case fetch
    with assms have r: "r = (sid, p, name, True)" "s' = s1" by auto
    from try_fetch_cases[OF fetch(1)] r obtain s3 where
      s1: "s1 = tick (s3\<lparr>last_processed_cache :=
                 AList.update (cache_key sid st en) (now e s3) (last_processed_cache s3)\<rparr>)"
      by auto
    have "map_of (last_processed_cache s1) (cache_key sid st en) = Some (now e s3)"
      by (simp add: s1 tick_simps update_conv')
    moreover have "now e s3 = clock e (time_reads s1 - 1)"
      by (simp add: s1 tick_simps now_def)
    ultimately show ?thesis using later by auto
  qed
qed

text \<open>
  On a descriptor whose id is a str, the method on the dict is the method of the section on
  \<open>fetch_single_sensor_data\<close>.
\<close>

lemma get_rainfall_data_any_str:
  "get_rainfall_data_any b e s (JStr sid) st en uc = get_rainfall_data e s sid st en uc"
  by (simp add: get_rainfall_data_any_def get_rainfall_data_def py_str_def split: option.splits)

lemma as_dict_lookup:
  "map_of (as_dict si) ''sensor_company_id'' = map_option JStr (si_sensor_company_id si)"
  "display_name_any (as_dict si) = display_name si"
  by (auto simp: as_dict_def display_name_any_def display_name_def dict_get_def
      split: option.splits)

lemma typed_model_agrees:
  "fetch_single_sensor_data_any b e s (as_dict si) st en
     = (case fetch_single_sensor_data e s si st en of
          (Inl x, s1) \<Rightarrow> (Inl x, s1)
        | (Inr (sid, p, n, ok), s1) \<Rightarrow> (Inr (JStr sid, p, n, ok), s1))"
  by (cases "si_sensor_company_id si")
    (auto simp: fetch_single_sensor_data_any_def fetch_single_sensor_data_def as_dict_lookup
      try_fetch_any_def try_fetch_def get_rainfall_data_any_str py_str_def
      split: option.splits prod.splits sum.splits)






lemma unsliceable_slice: "\<not> sliceable x \<Longrightarrow> py_slice8 x = Inl TypeError"
  by (cases x) auto



theorem duplicate_request_is_skipped_witness:
  "fetch_single_sensor_data world logged_in (sample_sensor ''S1'') ''a'' ''b''
     = (Inr (''S1'', sample_payload, JStr ''Gauge'', True), after_single)
   \<and> fetch_single_sensor_data world after_single (sample_sensor ''S1'') ''a'' ''b''
     = (Inr (''S1'', JNull, JStr ''Gauge'', True), tick after_single)
   \<and> requests (tick after_single) = requests after_single"
proof -
  have h: "fetch_single_sensor_data world logged_in (sample_sensor ''S1'') ''a'' ''b''
     = (Inr (''S1'', sample_payload, JStr ''Gauge'', True), after_single)"
    by (simp add: fetch_single_sensor_data_def try_fetch_def get_rainfall_data_def
        fetch_records_def evict_def display_name_def py_or_def after_single_def
        after_first_def sample_defs)
  from duplicate_request_is_skipped[OF h] obtain t where
    t: "map_of (last_processed_cache after_single) (cache_key ''S1'' ''a'' ''b'') = Some t"
       "sample_payload \<noteq> JNull \<longrightarrow> t = clock world (time_reads after_single - 1)"
    and skip: "\<And>s2. map_of (last_processed_cache s2) (cache_key ''S1'' ''a'' ''b'') = Some t
          \<Longrightarrow> now world s2 - t < DUPLICATE_SKIP_SEC
          \<Longrightarrow> fetch_single_sensor_data world s2 (sample_sensor ''S1'') ''a'' ''b''
                = (Inr (''S1'', JNull, JStr ''Gauge'', True), tick s2)
             \<and> requests (tick s2) = requests s2"
    by blast
  have "t = 1"
    using t(2) by (simp add: after_single_def after_first_def sample_defs)
  then have "now world after_single - t < DUPLICATE_SKIP_SEC"
    by (simp add: after_single_def after_first_def sample_defs)
  from skip[OF t(1) this] h show ?thesis by simp
qed





subsection \<open>The inventory cache and the session token\<close>


lemma get_all_fresh:
  assumes "sensors_cache s = Some cached" "cache_timestamp s = Some ts"
    "now e s - ts < CACHE_DURATION_SEC"
  shows "get_all_rainfall_sensors_with_device_info b e s = (Inr cached, tick s)"
  using assms by (simp add: get_all_rainfall_sensors_with_device_info_def Let_def tick_simps)

lemma get_all_stale:
  assumes "\<forall>cached ts. sensors_cache s = Some cached \<and> cache_timestamp s = Some ts
             \<longrightarrow> \<not> now e s - ts < CACHE_DURATION_SEC"
  shows "get_all_rainfall_sensors_with_device_info b e s = fetch_devices b e (tick s) (now e s)"
  using assms
  by (auto simp: get_all_rainfall_sensors_with_device_info_def Let_def tick_simps
      split: option.splits)

text \<open>
  C8, amended. A call of \<open>get_all_rainfall_sensors_with_device_info\<close> made while no session
  token exists fails with the "login required" exception, without a network request, whenever
  the inventory cache is empty or its stamp is \<open>CACHE_DURATION_SEC\<close> or more in the past. While
  the inventory cache is fresh the call returns the cached list, whether a token exists or not.
\<close>

theorem unauthenticated_listing:
  "(\<not> truthy (access_token s)
      \<and> (\<forall>cached ts. sensors_cache s = Some cached \<and> cache_timestamp s = Some ts
             \<longrightarrow> \<not> now e s - ts < CACHE_DURATION_SEC)
    \<longrightarrow> get_all_rainfall_sensors_with_device_info b e s = (Inl LoginRequired, tick s)
       \<and> requests (tick s) = requests s)
   \<and> (sensors_cache s = Some cached \<and> cache_timestamp s = Some ts
        \<and> now e s - ts < CACHE_DURATION_SEC
    \<longrightarrow> get_all_rainfall_sensors_with_device_info b e s = (Inr cached, tick s))"
proof (rule conjI)
  show "\<not> truthy (access_token s)
      \<and> (\<forall>cached ts. sensors_cache s = Some cached \<and> cache_timestamp s = Some ts
             \<longrightarrow> \<not> now e s - ts < CACHE_DURATION_SEC)
    \<longrightarrow> get_all_rainfall_sensors_with_device_info b e s = (Inl LoginRequired, tick s)
       \<and> requests (tick s) = requests s"
    using get_all_stale[of s e b] by (simp add: fetch_devices_def tick_simps)
  show "sensors_cache s = Some cached \<and> cache_timestamp s = Some ts
        \<and> now e s - ts < CACHE_DURATION_SEC
    \<longrightarrow> get_all_rainfall_sensors_with_device_info b e s = (Inr cached, tick s)"
    using get_all_fresh[of s cached ts e b] by simp
qed

theorem unauthenticated_listing_witness:
  "\<not> truthy (access_token init_api)
   \<and> get_all_rainfall_sensors_with_device_info sample_builtins world init_api
       = (Inl LoginRequired, tick init_api)
   \<and> requests (tick init_api) = requests init_api"
proof -
  have a: "\<not> truthy (access_token init_api)"
    by (simp add: init_api_def)
  have c: "\<forall>cached ts. sensors_cache init_api = Some cached \<and> cache_timestamp init_api = Some ts
             \<longrightarrow> \<not> now world init_api - ts < CACHE_DURATION_SEC"
    by (simp add: init_api_def)
  from unauthenticated_listing[of init_api world sample_builtins] a c show ?thesis by blast
qed

text \<open>
  The claim as stated fails: after a login, a listing and a second login that yields no token,
  the next listing returns the cached sensors although no token exists.
\<close>

theorem cached_listing_without_token:
  "snd (login world
          (snd (get_all_rainfall_sensors_with_device_info sample_builtins world
                  (snd (login world init_api ''u'' ''p''))))
          ''u'' ''p'') = logged_out
   \<and> access_token logged_out = JNull
   \<and> get_all_rainfall_sensors_with_device_info sample_builtins world logged_out
       = (Inr [sample_sensor ''S1'', sample_sensor ''S2'', sample_sensor ''S3''], tick logged_out)"
  by (simp add: login_def get_all_rainfall_sensors_with_device_info_def fetch_devices_def
      device_sensors_def dict_get_def py_or_def py_str_def logged_out_def Let_def sample_defs)

subsection \<open>The result map of the parallel fetch\<close>


lemma update_fresh: "k \<notin> fst ` set al \<Longrightarrow> AList.update k v al = al @ [(k, v)]"
  by (induction al) auto

lemma collect_Inr:
  "collect acc rs = Inr all_data \<Longrightarrow>
     \<exists>ts. rs = map Inr ts \<and> all_data = foldl (\<lambda>a r. AList.update (fst r) (fst (snd r)) a) acc ts"
proof (induction acc rs rule: collect.induct)
  case (1 all_data)
  then show ?case by simp
next
  case (2 all_data x rs)
  then show ?case by simp
next
  case (3 acc sensor_id data device_name success rs)
  from 3 obtain ts where ts: "rs = map Inr ts"
    "all_data = foldl (\<lambda>a r. AList.update (fst r) (fst (snd r)) a) (AList.update sensor_id data acc) ts"
    by auto
  show ?case
    by (rule exI[of _ "(sensor_id, data, device_name, success) # ts"]) (simp add: ts)
qed

lemma collect_map_Inr:
  "collect acc (map Inr ts) = Inr (foldl (\<lambda>a r. AList.update (fst r) (fst (snd r)) a) acc ts)"
  by (induction ts arbitrary: acc) (auto simp: split_paired_all)

lemma foldl_update_keys:
  "fst ` set (foldl (\<lambda>a r. AList.update (fst r) (fst (snd r)) a) acc ts)
     = fst ` set acc \<union> fst ` set ts"
  by (induction ts arbitrary: acc) (auto simp: dom_update)

lemma foldl_update_distinct:
  "distinct (map fst acc) \<Longrightarrow>
     distinct (map fst (foldl (\<lambda>a r. AList.update (fst r) (fst (snd r)) a) acc ts))"
  by (induction ts arbitrary: acc) (auto simp: distinct_update)

lemma foldl_update_map_of:
  "map_of (foldl (\<lambda>a r. AList.update (fst r) (fst (snd r)) a) acc ts)
     = map_of acc ++ map_of (rev (map entry_of ts))"
proof (induction ts arbitrary: acc)
  case Nil
  show ?case by simp
next
  case (Cons t ts)
  show ?case
    by (simp add: Cons.IH update_conv' entry_of_def map_add_def fun_eq_iff split: option.splits)
qed

lemma foldl_update_fresh:
  "distinct (map fst acc @ map fst ts) \<Longrightarrow>
     foldl (\<lambda>a r. AList.update (fst r) (fst (snd r)) a) acc ts = acc @ map entry_of ts"
proof (induction ts arbitrary: acc)
  case Nil
  show ?case by simp
next
  case (Cons t ts)
  have "fst t \<notin> fst ` set acc" using Cons.prems by auto
  then have u: "AList.update (fst t) (fst (snd t)) acc = acc @ [entry_of t]"
    by (simp add: update_fresh entry_of_def)
  have "distinct (map fst (acc @ [entry_of t]) @ map fst ts)"
    using Cons.prems by (auto simp: entry_of_def)
  from Cons.IH[OF this] u show ?case by simp
qed

lemma try_fetch_shape:
  "try_fetch e s sid name st en = ((i, p, n, ok), s') \<Longrightarrow>
     i = sid \<and> n = name \<and> (\<not> ok \<longrightarrow> p = JNull)"
  by (auto simp: try_fetch_def split: prod.splits sum.splits)

lemma fetch_single_shape:
  assumes "fetch_single_sensor_data e s si st en = (r, s')"
  shows "case si_sensor_company_id si of
           None \<Rightarrow> r = Inl KeyError
         | Some sid \<Rightarrow> (\<exists>p ok. r = Inr (sid, p, display_name si, ok) \<and> (\<not> ok \<longrightarrow> p = JNull))"
  using assms
  by (auto simp: fetch_single_sensor_data_def split: option.splits if_splits prod.splits
      dest!: try_fetch_shape)

lemma run_tasks_shape:
  "run_tasks e s sis st en = (map Inr ts, s') \<Longrightarrow>
     map si_sensor_company_id sis = map (\<lambda>r. Some (fst r)) ts
     \<and> (\<forall>r\<in>set ts. \<not> snd (snd (snd r)) \<longrightarrow> fst (snd r) = JNull)"
proof (induction sis arbitrary: s ts s')
  case Nil
  then show ?case by simp
next
  case (Cons si sis)
  obtain r s1 where a: "fetch_single_sensor_data e s si st en = (r, s1)"
    by (cases "fetch_single_sensor_data e s si st en")
  obtain rs s2 where b: "run_tasks e s1 sis st en = (rs, s2)"
    by (cases "run_tasks e s1 sis st en")
  from Cons.prems a b have eq: "map Inr ts = r # rs" "s' = s2" by auto
  then obtain t ts' where ts: "ts = t # ts'" "r = Inr t" "rs = map Inr ts'"
    by (cases ts) auto
  from Cons.IH[of s1 ts' s2] b ts have ih:
    "map si_sensor_company_id sis = map (\<lambda>r. Some (fst r)) ts'"
    "\<forall>r\<in>set ts'. \<not> snd (snd (snd r)) \<longrightarrow> fst (snd r) = JNull" by auto
  from fetch_single_shape[OF a] ts(2)
  have "si_sensor_company_id si = Some (fst t) \<and> (\<not> snd (snd (snd t)) \<longrightarrow> fst (snd t) = JNull)"
    by (auto split: option.splits)
  with ih ts(1) show ?case by simp
qed

lemma run_tasks_total:
  "\<forall>si\<in>set sis. si_sensor_company_id si \<noteq> None \<Longrightarrow>
     \<exists>ts s'. run_tasks e s sis st en = (map Inr ts, s')"
proof (induction sis arbitrary: s)
  case Nil
  show ?case by simp
next
  case (Cons si sis)
  obtain r s1 where a: "fetch_single_sensor_data e s si st en = (r, s1)"
    by (cases "fetch_single_sensor_data e s si st en")
  from fetch_single_shape[OF a] Cons.prems obtain t where t: "r = Inr t"
    by (auto split: option.splits)
  from Cons.IH[of s1] Cons.prems obtain ts s2 where b: "run_tasks e s1 sis st en = (map Inr ts, s2)"
    by auto
  have "run_tasks e s (si # sis) st en = (map Inr (t # ts), s2)"
    using a b t by simp
  then show ?case by blast
qed

lemma skipped_payload:
  assumes "skipped e s si st en" "fetch_single_sensor_data e s si st en = (Inr r, s')"
  shows "fst (snd r) = JNull \<and> snd (snd (snd r))"
  using assms
  by (auto simp: skipped_def fetch_single_sensor_data_def split: option.splits)

lemma run_tasks_skipped:
  "run_tasks e s sis st en = (map Inr ts, s') \<Longrightarrow>
     \<forall>i<length sis. skipped e (task_states e s sis st en ! i) (sis ! i) st en
        \<longrightarrow> fst (snd (ts ! i)) = JNull \<and> snd (snd (snd (ts ! i)))"
proof (induction sis arbitrary: s ts s')
  case Nil
  then show ?case by simp
next
  case (Cons si sis)
  obtain r s1 where a: "fetch_single_sensor_data e s si st en = (r, s1)"
    by (cases "fetch_single_sensor_data e s si st en")
  obtain rs s2 where b: "run_tasks e s1 sis st en = (rs, s2)"
    by (cases "run_tasks e s1 sis st en")
  from Cons.prems a b have eq: "map Inr ts = r # rs" by auto
  then obtain t ts' where ts: "ts = t # ts'" "r = Inr t" "rs = map Inr ts'"
    by (cases ts) auto
  have hd: "skipped e s si st en \<longrightarrow> fst (snd t) = JNull \<and> snd (snd (snd t))"
    using skipped_payload[of e s si st en t s1] a ts(2) by simp
  have tl: "\<forall>i<length sis. skipped e (task_states e s1 sis st en ! i) (sis ! i) st en
        \<longrightarrow> fst (snd (ts' ! i)) = JNull \<and> snd (snd (snd (ts' ! i)))"
    using Cons.IH[of s1 ts' s2] b ts(3) by simp
  show ?case
  proof (intro allI impI)
    fix i
    assume i: "i < length (si # sis)"
      and sk: "skipped e (task_states e s (si # sis) st en ! i) ((si # sis) ! i) st en"
    show "fst (snd (ts ! i)) = JNull \<and> snd (snd (snd (ts ! i)))"
    proof (cases i)
      case 0
      with sk hd ts(1) show ?thesis by simp
    next
      case (Suc j)
      with i sk tl ts(1) a show ?thesis by simp
    qed
  qed
qed

lemma fetch_all_Inr:
  assumes "fetch_all_rainfall_data_parallel b e ci s st en w = (Inr all_data, s')"
  shows "\<exists>sensors s1 rs s3. get_all_rainfall_sensors_with_device_info b e s = (Inr sensors, s1)
     \<and> run_tasks e (tick s1) sensors st en = (rs, s3) \<and> collect [] rs = Inr all_data"
  using assms
  by (auto simp: fetch_all_rainfall_data_parallel_def Let_def
      split: prod.splits sum.splits if_splits)

text \<open>
  C4, amended. When \<open>fetch_all_rainfall_data_parallel\<close> returns a result map, the map has
  exactly one entry for every different sensor id of the sensor list, whatever number of fetches
  was skipped or failed: its keys are the ids of the list, its length is their number, the
  value of an id is the payload of the last task for that id, and a task that failed or
  that the dedup ledger cut short has the null payload. When the ids of the list are pairwise different the map has as many entries as
  the list has sensors, in the order of the tasks. The method returns a map whenever the listing
  succeeds with a list that is not empty, every descriptor has its id and the pool has a worker.
\<close>

theorem result_map_entries:
  "(fetch_all_rainfall_data_parallel b e ci s st en w = (Inr all_data, s')
    \<longrightarrow> (\<exists>sensors s1 ts s3.
          get_all_rainfall_sensors_with_device_info b e s = (Inr sensors, s1)
          \<and> run_tasks e (tick s1) sensors st en = (map Inr ts, s3)
          \<and> map si_sensor_company_id sensors = map (\<lambda>r. Some (fst r)) ts
          \<and> distinct (map fst all_data)
          \<and> set (map fst all_data) = set (map fst ts)
          \<and> length all_data = card (set (map fst ts))
          \<and> map_of all_data = map_of (rev (map entry_of ts))
          \<and> (\<forall>r\<in>set ts. \<not> snd (snd (snd r)) \<longrightarrow> fst (snd r) = JNull)
          \<and> (\<forall>i<length sensors.
                skipped e (task_states e (tick s1) sensors st en ! i) (sensors ! i) st en
                \<longrightarrow> fst (snd (ts ! i)) = JNull)
          \<and> (distinct (map fst ts)
               \<longrightarrow> all_data = map entry_of ts \<and> length all_data = length sensors)))
   \<and> (get_all_rainfall_sensors_with_device_info b e s = (Inr sensors, s1)
        \<and> (\<forall>si\<in>set sensors. si_sensor_company_id si \<noteq> None)
        \<and> sensors \<noteq> [] \<and> 0 < (if ci then min w 8 else w)
      \<longrightarrow> (\<exists>all_data s'. fetch_all_rainfall_data_parallel b e ci s st en w = (Inr all_data, s')))"
proof (rule conjI; rule impI)
  assume a: "fetch_all_rainfall_data_parallel b e ci s st en w = (Inr all_data, s')"
  from fetch_all_Inr[OF a] obtain sensors s1 rs s3 where
    g: "get_all_rainfall_sensors_with_device_info b e s = (Inr sensors, s1)"
    and rt: "run_tasks e (tick s1) sensors st en = (rs, s3)"
    and c: "collect [] rs = Inr all_data" by blast
  let ?f = "\<lambda>a r. AList.update (fst r) (fst (snd r)) a"
  from collect_Inr[OF c] obtain ts where ts: "rs = map Inr ts"
    "all_data = foldl ?f [] (ts :: fetch_result list)" by blast
  from rt ts(1) have rt': "run_tasks e (tick s1) sensors st en = (map Inr ts, s3)" by simp
  note sh = run_tasks_shape[OF rt']
  have sk: "\<forall>i<length sensors.
      skipped e (task_states e (tick s1) sensors st en ! i) (sensors ! i) st en
      \<longrightarrow> fst (snd (ts ! i)) = JNull"
    using run_tasks_skipped[OF rt'] by blast
  have d: "distinct (map fst all_data)"
    unfolding ts(2) by (rule foldl_update_distinct) simp
  have k: "set (map fst all_data) = set (map fst ts)"
    unfolding ts(2) using foldl_update_keys[of "[]" ts] by simp
  have card: "length all_data = card (set (map fst ts))"
    using distinct_card[OF d] k by simp
  have m: "map_of all_data = map_of (rev (map entry_of ts))"
    unfolding ts(2) by (simp add: foldl_update_map_of)
  have len: "length sensors = length ts"
    using sh by (metis length_map)
  have dd: "distinct (map fst ts) \<longrightarrow> all_data = map entry_of ts \<and> length all_data = length sensors"
    unfolding ts(2) using foldl_update_fresh[of "[]" ts] len by simp
  from g rt' sh sk d k card m dd
  show "\<exists>sensors s1 ts s3.
          get_all_rainfall_sensors_with_device_info b e s = (Inr sensors, s1)
          \<and> run_tasks e (tick s1) sensors st en = (map Inr ts, s3)
          \<and> map si_sensor_company_id sensors = map (\<lambda>r. Some (fst r)) ts
          \<and> distinct (map fst all_data)
          \<and> set (map fst all_data) = set (map fst ts)
          \<and> length all_data = card (set (map fst ts))
          \<and> map_of all_data = map_of (rev (map entry_of ts))
          \<and> (\<forall>r\<in>set ts. \<not> snd (snd (snd r)) \<longrightarrow> fst (snd r) = JNull)
          \<and> (\<forall>i<length sensors.
                skipped e (task_states e (tick s1) sensors st en ! i) (sensors ! i) st en
                \<longrightarrow> fst (snd (ts ! i)) = JNull)
          \<and> (distinct (map fst ts)
               \<longrightarrow> all_data = map entry_of ts \<and> length all_data = length sensors)"
    by blast
next
  assume a: "get_all_rainfall_sensors_with_device_info b e s = (Inr sensors, s1)
        \<and> (\<forall>si\<in>set sensors. si_sensor_company_id si \<noteq> None)
        \<and> sensors \<noteq> [] \<and> 0 < (if ci then min w 8 else w)"
  then obtain ts s3 where rt: "run_tasks e (tick s1) sensors st en = (map Inr ts, s3)"
    using run_tasks_total[of sensors e "tick s1" st en] by blast
  show "\<exists>all_data s'. fetch_all_rainfall_data_parallel b e ci s st en w = (Inr all_data, s')"
    using a rt
    by (simp add: fetch_all_rainfall_data_parallel_def Let_def collect_map_Inr)
qed

lemmas step_defs =
  fetch_single_sensor_data_def try_fetch_def get_rainfall_data_def fetch_records_def evict_def
  display_name_def py_or_def

lemmas listing_defs =
  get_all_rainfall_sensors_with_device_info_def fetch_devices_def device_sensors_def
  dict_get_def py_or_def py_str_def Let_def

text \<open>
  The claim as stated fails: when the inventory lists the sensor \<^verbatim>\<open>S1\<close> twice, the input
  has two sensors and the result map one entry (whose value is the null payload of the second,
  skipped task).
\<close>

theorem duplicate_sensor_ids_share_an_entry:
  "fst (get_all_rainfall_sensors_with_device_info sample_builtins twin_world logged_in)
     = Inr [sample_sensor ''S1'', sample_sensor ''S1'']
   \<and> fst (fetch_all_rainfall_data_parallel sample_builtins twin_world True logged_in
            ''a'' ''b'' 10)
     = Inr [(''S1'', JNull)]"
proof -
  let ?sensors = "[sample_sensor ''S1'', sample_sensor ''S1'']"
  let ?listed = "logged_in\<lparr>sensors_cache := Some ?sensors, cache_timestamp := Some 0,
    time_reads := 1, requests := [GetDevices (JInt 7)]\<rparr>"
  let ?st1 = "?listed\<lparr>last_processed_cache := [(''S1_a_b'', 3)],
    data_cache := [(''S1_a_b'', \<lparr>ce_data = sample_payload, ce_timestamp = 2\<rparr>)],
    time_reads := 4, requests := [GetDevices (JInt 7), GetRecords ''S1'' ''a'' ''b'']\<rparr>"
  have inv: "get_all_rainfall_sensors_with_device_info sample_builtins twin_world logged_in
      = (Inr ?sensors, ?listed)"
    by (simp add: listing_defs sample_defs)
  have t1: "fetch_single_sensor_data twin_world (tick ?listed) (sample_sensor ''S1'') ''a'' ''b''
      = (Inr (''S1'', sample_payload, JStr ''Gauge'', True), ?st1)"
    by (simp add: step_defs sample_defs)
  have t2: "fetch_single_sensor_data twin_world ?st1 (sample_sensor ''S1'') ''a'' ''b''
      = (Inr (''S1'', JNull, JStr ''Gauge'', True), tick ?st1)"
    by (simp add: step_defs sample_defs)
  have rt: "run_tasks twin_world (tick ?listed) ?sensors ''a'' ''b''
      = ([Inr (''S1'', sample_payload, JStr ''Gauge'', True),
          Inr (''S1'', JNull, JStr ''Gauge'', True)], tick ?st1)"
    by (simp only: run_tasks.simps t1 t2 prod.case)
  have "fetch_all_rainfall_data_parallel sample_builtins twin_world True logged_in ''a'' ''b'' 10
      = (Inr [(''S1'', JNull)], tick (tick ?st1))"
    by (simp only: fetch_all_rainfall_data_parallel_def inv prod.case sum.case Let_def rt)
      simp
  with inv show ?thesis by simp
qed

lemma sample_listing:
  "get_all_rainfall_sensors_with_device_info sample_builtins world logged_in
     = (Inr [sample_sensor ''S1'', sample_sensor ''S2'', sample_sensor ''S3''], sample_listed)"
  by (simp add: listing_defs sample_listed_def sample_defs)

lemma sample_run:
  "fetch_all_rainfall_data_parallel sample_builtins world True logged_in ''a'' ''b'' 10
     = (Inr [(''S1'', sample_payload), (''S2'', sample_payload), (''S3'', JNull)], sample_fetched)"
proof -
  let ?sensors = "[sample_sensor ''S1'', sample_sensor ''S2'', sample_sensor ''S3'']"
  let ?st1 = "sample_listed\<lparr>last_processed_cache := [(''S1_a_b'', 3)],
    data_cache := [(''S1_a_b'', \<lparr>ce_data = sample_payload, ce_timestamp = 2\<rparr>)],
    time_reads := 4, requests := [GetDevices (JInt 7), GetRecords ''S1'' ''a'' ''b'']\<rparr>"
  let ?st2 = "sample_listed\<lparr>last_processed_cache := [(''S1_a_b'', 3), (''S2_a_b'', 5)],
    data_cache := [(''S1_a_b'', \<lparr>ce_data = sample_payload, ce_timestamp = 2\<rparr>),
                   (''S2_a_b'', \<lparr>ce_data = sample_payload, ce_timestamp = 4\<rparr>)],
    time_reads := 6,
    requests := [GetDevices (JInt 7), GetRecords ''S1'' ''a'' ''b'',
                 GetRecords ''S2'' ''a'' ''b'']\<rparr>"
  let ?st3 = "sent (GetRecords ''S3'' ''a'' ''b'') ?st2"
  have t1: "fetch_single_sensor_data world (tick sample_listed) (sample_sensor ''S1'') ''a'' ''b''
      = (Inr (''S1'', sample_payload, JStr ''Gauge'', True), ?st1)"
    by (simp add: step_defs sample_listed_def sample_defs)
  have t2: "fetch_single_sensor_data world ?st1 (sample_sensor ''S2'') ''a'' ''b''
      = (Inr (''S2'', sample_payload, JStr ''Gauge'', True), ?st2)"
    by (simp add: step_defs sample_listed_def sample_defs)
  have t3: "fetch_single_sensor_data world ?st2 (sample_sensor ''S3'') ''a'' ''b''
      = (Inr (''S3'', JNull, JStr ''Gauge'', False), ?st3)"
    by (simp add: step_defs sample_listed_def sample_defs)
  have rt: "run_tasks world (tick sample_listed) ?sensors ''a'' ''b''
      = ([Inr (''S1'', sample_payload, JStr ''Gauge'', True),
          Inr (''S2'', sample_payload, JStr ''Gauge'', True),
          Inr (''S3'', JNull, JStr ''Gauge'', False)], ?st3)"
    by (simp only: run_tasks.simps t1 t2 t3 prod.case)
  have fin: "tick ?st3 = sample_fetched"
    by (simp add: sample_fetched_def sample_listed_def sample_defs)
  have "fetch_all_rainfall_data_parallel sample_builtins world True logged_in ''a'' ''b'' 10
      = (Inr [(''S1'', sample_payload), (''S2'', sample_payload), (''S3'', JNull)], tick ?st3)"
    by (simp only: fetch_all_rainfall_data_parallel_def sample_listing prod.case sum.case
        Let_def rt) simp
  then show ?thesis by (simp only: fin)
qed

theorem result_map_entries_witness:
  "get_all_rainfall_sensors_with_device_info sample_builtins world logged_in
     = (Inr [sample_sensor ''S1'', sample_sensor ''S2'', sample_sensor ''S3''], sample_listed)
   \<and> fetch_all_rainfall_data_parallel sample_builtins world True logged_in ''a'' ''b'' 10
     = (Inr [(''S1'', sample_payload), (''S2'', sample_payload), (''S3'', JNull)], sample_fetched)
   \<and> (\<exists>ts. map fst ts = [''S1'', ''S2'', ''S3'']
         \<and> [(''S1'', sample_payload), (''S2'', sample_payload), (''S3'', JNull)] = map entry_of ts
         \<and> (\<forall>r\<in>set ts. \<not> snd (snd (snd r)) \<longrightarrow> fst (snd r) = JNull))"
proof -
  let ?sensors = "[sample_sensor ''S1'', sample_sensor ''S2'', sample_sensor ''S3'']"
  let ?all = "[(''S1'', sample_payload), (''S2'', sample_payload), (''S3'', JNull)]"
  note ex = conjunct1[OF result_map_entries[of sample_builtins world True logged_in "''a''" "''b''" 10
        ?all sample_fetched], THEN mp, OF sample_run]
  then obtain sensors s1 ts s3 where all:
    "get_all_rainfall_sensors_with_device_info sample_builtins world logged_in
          = (Inr sensors, s1)
     \<and> run_tasks world (tick s1) sensors ''a'' ''b'' = (map Inr ts, s3)
     \<and> map si_sensor_company_id sensors = map (\<lambda>r. Some (fst r)) ts
     \<and> distinct (map fst ?all)
     \<and> set (map fst ?all) = set (map fst ts)
     \<and> length ?all = card (set (map fst ts))
     \<and> map_of ?all = map_of (rev (map entry_of ts))
     \<and> (\<forall>r\<in>set ts. \<not> snd (snd (snd r)) \<longrightarrow> fst (snd r) = JNull)
     \<and> (\<forall>i<length sensors.
           skipped world (task_states world (tick s1) sensors ''a'' ''b'' ! i) (sensors ! i)
             ''a'' ''b''
           \<longrightarrow> fst (snd (ts ! i)) = JNull)
     \<and> (distinct (map fst ts) \<longrightarrow> ?all = map entry_of ts \<and> length ?all = length sensors)"
    by (elim exE)
  then have g: "get_all_rainfall_sensors_with_device_info sample_builtins world logged_in
          = (Inr sensors, s1)"
    and ids: "map si_sensor_company_id sensors = map (\<lambda>r. Some (fst r)) ts"
    and nul: "\<forall>r\<in>set ts. \<not> snd (snd (snd r)) \<longrightarrow> fst (snd r) = JNull"
    and dis: "distinct (map fst ts) \<longrightarrow> ?all = map entry_of ts \<and> length ?all = length sensors"
    by blast+
  from g have "sensors = ?sensors"
    by (simp add: sample_listing)
  with ids have "map Some (map fst ts) = map Some [''S1'', ''S2'', ''S3'']"
    by (simp add: sample_sensor_def)
  then have m: "map fst ts = [''S1'', ''S2'', ''S3'']"
    by (simp only: inj_map_eq_map[OF inj_Some])
  then have "distinct (map fst ts)" by simp
  with dis have eq: "?all = map entry_of ts" by blast
  have "\<exists>ts. map fst ts = [''S1'', ''S2'', ''S3'']
         \<and> ?all = map entry_of ts
         \<and> (\<forall>r\<in>set ts. \<not> snd (snd (snd r)) \<longrightarrow> fst (snd r) = JNull)"
  proof (rule exI[of _ ts], intro conjI)
    show "map fst ts = [''S1'', ''S2'', ''S3'']" by (rule m)
    show "?all = map entry_of ts" by (rule eq)
    show "\<forall>r\<in>set ts. \<not> snd (snd (snd r)) \<longrightarrow> fst (snd r) = JNull" by (rule nul)
  qed
  with sample_listing sample_run show ?thesis by (intro conjI)
qed

section \<open>Properties of the transformer\<close>


lemma and_then_Inr: "and_then m f = Inr y \<longleftrightarrow> (\<exists>v. m = Inr v \<and> f v = Inr y)"
  by (cases m) (auto simp: and_then_def)

lemma and_then_simps: "and_then (Inr v) f = f v" "and_then (Inl x) f = Inl x"
  by (simp_all add: and_then_def)

lemma for_each_concat:
  assumes "for_each f xs = Inr ys"
    and "\<And>x y. x \<in> set xs \<Longrightarrow> f x = Inr y \<Longrightarrow> map g y = h x"
  shows "map g ys = concat (map h xs)"
  using assms
proof (induction xs arbitrary: ys)
  case Nil
  then show ?case by simp
next
  case (Cons x xs)
  from Cons.prems(1) obtain y zs where y: "f x = Inr y" "for_each f xs = Inr zs" "ys = y @ zs"
    by (auto simp: and_then_Inr)
  have "map g zs = concat (map h xs)"
    using Cons.IH[OF y(2)] Cons.prems(2) by simp
  moreover have "map g y = h x"
    using Cons.prems(2)[of x y] y(1) by simp
  ultimately show ?case using y(3) by simp
qed

lemma for_each_all:
  assumes "for_each f xs = Inr ys"
    and "\<And>x y. x \<in> set xs \<Longrightarrow> f x = Inr y \<Longrightarrow> \<forall>r\<in>set y. P r"
  shows "\<forall>r\<in>set ys. P r"
  using assms
proof (induction xs arbitrary: ys)
  case Nil
  then show ?case by simp
next
  case (Cons x xs)
  from Cons.prems(1) obtain y zs where y: "f x = Inr y" "for_each f xs = Inr zs" "ys = y @ zs"
    by (auto simp: and_then_Inr)
  have "\<forall>r\<in>set zs. P r"
  proof (rule Cons.IH[OF y(2)])
    fix x' y'
    assume "x' \<in> set xs" "f x' = Inr y'"
    then show "\<forall>r\<in>set y'. P r"
      using Cons.prems(2)[of x' y'] by simp
  qed
  moreover have "\<forall>r\<in>set y. P r"
    using Cons.prems(2)[of x y] y(1) by simp
  ultimately show ?case using y(3) by auto
qed


lemma transform_record_Inr:
  assumes "transform_record b t sid di sm r = Inr recs"
  shows "\<exists>rec. recs = [rec] \<and> pr_sensor_company_id rec = sid
      \<and> pr_datetime rec = key_or r ''datetime'' JNull
      \<and> pr_timestamp rec = t \<and> pr_created_at rec = t
      \<and> pr_device_id rec = str_if b (info_get di si_device_id)
      \<and> pr_device_name rec = str_if b (info_get di si_device_name)
      \<and> (di = None \<longrightarrow> pr_gps_location_lat rec = None \<and> pr_gps_location_lng rec = None)"
proof -
  from assms obtain kvs where r: "r = JObj kvs"
    by (cases r) (auto simp: transform_record_def and_then_Inr)
  from assms show ?thesis unfolding r
    by (auto simp: transform_record_def and_then_Inr key_or_def dict_get_def info_get_def
        safe_float_def)
qed

lemma py_get_Inr: "py_get x k d = Inr v \<Longrightarrow> \<exists>kvs. x = JObj kvs \<and> v = dict_get kvs k d"
  by (cases x) (auto simp: dict_get_def)

lemma py_iter_elements: "py_iter x = Inr xs \<Longrightarrow> elements x = xs"
  by (simp add: elements_def)

lemma transform_record_row:
  assumes "transform_record b t sid di sm r = Inr recs"
  shows "\<exists>rec. recs = [rec] \<and> row_ok b t sid di rec"
  using transform_record_Inr[OF assms] by (auto simp: row_ok_def)

lemma transform_group_Inr:
  assumes "transform_group b t sid di g = Inr recs"
  shows "length recs = length (elements (key_or g ''sensor_records'' (JArr [])))
       \<and> (\<forall>rec\<in>set recs. row_ok b t sid di rec)"
proof -
  from assms obtain sm srs rs where
    sm: "py_get g ''sensor_master'' (JObj []) = Inr sm"
    and srs: "py_get g ''sensor_records'' (JArr []) = Inr srs"
    and rs: "py_iter srs = Inr rs"
    and fe: "for_each (transform_record b t sid di sm) rs = Inr recs"
    by (auto simp: transform_group_def and_then_Inr)
  from py_get_Inr[OF srs] have "key_or g ''sensor_records'' (JArr []) = srs"
    by (auto simp: key_or_def)
  then have el: "elements (key_or g ''sensor_records'' (JArr [])) = rs"
    using py_iter_elements[OF rs] by simp
  have "map (\<lambda>r. ()) recs = concat (map (\<lambda>r. [()]) rs)"
    using fe by (rule for_each_concat) (auto dest!: transform_record_row)
  then have "length (map (\<lambda>r. ()) recs) = length (concat (map (\<lambda>r. [()]) rs))"
    by simp
  then have len: "length recs = length rs"
    by (simp add: length_concat comp_def)
  have "\<forall>rec\<in>set recs. row_ok b t sid di rec"
    using fe by (rule for_each_all) (auto dest!: transform_record_row)
  with len el show ?thesis by simp
qed

lemma status_ok_contributes:
  "(dict_get kvs ''status'' JNull = JStr ''OK'') = contributes (JObj kvs)"
  by (auto simp: dict_get_def contributes_def split: option.splits)

lemma falsy_contributes: "\<not> truthy p \<Longrightarrow> \<not> contributes p"
  by (cases p) (auto simp: contributes_def)

lemma transform_entry_Inr:
  assumes "transform_entry b t m (sid, p) = Inr recs"
  shows "length recs = (if contributes p then length (raw_readings p) else 0)
       \<and> (\<forall>rec\<in>set recs. row_ok b t sid (map_of m sid) rec)"
proof (cases "truthy p")
  case False
  with assms show ?thesis by (simp add: transform_entry_def falsy_contributes)
next
  case True
  with assms obtain st where st: "py_get p ''status'' JNull = Inr st"
    by (auto simp: transform_entry_def and_then_Inr)
  from py_get_Inr[OF st] obtain kvs where p: "p = JObj kvs" "st = dict_get kvs ''status'' JNull"
    by blast
  show ?thesis
  proof (cases "st = JStr ''OK''")
    case False
    then have "\<not> contributes p" using p status_ok_contributes[of kvs] by simp
    moreover have "recs = []"
      using assms True st False by (simp add: transform_entry_def and_then_simps)
    ultimately show ?thesis by simp
  next
    case ok: True
    then have c: "contributes p" using p status_ok_contributes[of kvs] by simp
    from assms True st ok obtain d records gs where
      d: "py_get p ''data'' (JObj []) = Inr d"
      and rc: "py_get d ''data'' (JArr []) = Inr records"
      and gs: "py_iter records = Inr gs"
      and fe: "for_each (transform_group b t sid (map_of m sid)) gs = Inr recs"
      by (auto simp: transform_entry_def and_then_simps and_then_Inr)
    from py_get_Inr[OF d] have "key_or p ''data'' (JObj []) = d"
      by (auto simp: key_or_def)
    moreover from py_get_Inr[OF rc] have "key_or d ''data'' (JArr []) = records"
      by (auto simp: key_or_def)
    ultimately have rr: "raw_readings p
        = concat (map (\<lambda>g. elements (key_or g ''sensor_records'' (JArr []))) gs)"
      using py_iter_elements[OF gs] by (simp add: raw_readings_def)
    have "map (\<lambda>r. ()) recs
        = concat (map (\<lambda>g. replicate (length (elements (key_or g ''sensor_records'' (JArr [])))) ()) gs)"
      using fe
    proof (rule for_each_concat)
      fix g y
      assume "transform_group b t sid (map_of m sid) g = Inr y"
      from transform_group_Inr[OF this]
      show "map (\<lambda>r. ()) y = replicate (length (elements (key_or g ''sensor_records'' (JArr [])))) ()"
        by (simp add: map_replicate_const)
    qed
    then have "length (map (\<lambda>r. ()) recs)
        = length (concat (map (\<lambda>g. replicate (length (elements (key_or g ''sensor_records'' (JArr [])))) ()) gs))"
      by simp
    then have len: "length recs = length (raw_readings p)"
      by (simp add: rr length_concat comp_def)
    have "\<forall>rec\<in>set recs. row_ok b t sid (map_of m sid) rec"
      using fe by (rule for_each_all) (auto dest!: transform_group_Inr)
    with len c show ?thesis by simp
  qed
qed

lemma device_info_map_keys:
  "device_info_map acc ss = Inr m \<Longrightarrow>
     (map_of m k = None) = (map_of acc k = None \<and> (\<forall>s\<in>set ss. si_sensor_company_id s \<noteq> Some k))"
proof (induction ss arbitrary: acc)
  case Nil
  then show ?case by simp
next
  case (Cons s ss)
  from Cons.prems obtain i where i: "si_sensor_company_id s = Some i"
    "device_info_map (AList.update i s acc) ss = Inr m"
    by (auto split: option.splits)
  from Cons.IH[OF i(2)] i(1) show ?case
    by (auto simp: update_conv')
qed

lemma transform_Inr:
  "transform_rainfall_data b t rd ss = Inr recs \<Longrightarrow>
     \<exists>m. device_info_map [] ss = Inr m \<and> for_each (transform_entry b t m) rd = Inr recs"
  by (auto simp: transform_rainfall_data_def and_then_Inr)

lemma map_const_replicate: "\<forall>r\<in>set ys. f r = a \<Longrightarrow> map f ys = replicate (length ys) a"
  by (induction ys) auto

lemma transform_rows:
  assumes "transform_rainfall_data b t rd ss = Inr recs"
  shows "map pr_sensor_company_id recs
           = concat (map (\<lambda>(sid, p).
               replicate (if contributes p then length (raw_readings p) else 0) sid) rd)"
    and "\<forall>rec\<in>set recs. pr_timestamp rec = t \<and> pr_created_at rec = t"
    and "\<forall>rec\<in>set recs.
           (\<forall>s\<in>set ss. si_sensor_company_id s \<noteq> Some (pr_sensor_company_id rec))
           \<longrightarrow> pr_device_id rec = None \<and> pr_device_name rec = None
               \<and> pr_gps_location_lat rec = None \<and> pr_gps_location_lng rec = None"
proof -
  from transform_Inr[OF assms] obtain m where
    m: "device_info_map [] ss = Inr m"
    and fe: "for_each (transform_entry b t m) rd = Inr recs" by blast
  show "map pr_sensor_company_id recs
           = concat (map (\<lambda>(sid, p).
               replicate (if contributes p then length (raw_readings p) else 0) sid) rd)"
    using fe
  proof (rule for_each_concat)
    fix x y
    assume y: "transform_entry b t m x = Inr y"
    obtain sid p where x: "x = (sid, p)" by (cases x)
    from transform_entry_Inr[OF y[unfolded x]]
    have len: "length y = (if contributes p then length (raw_readings p) else 0)"
      and "\<forall>rec\<in>set y. pr_sensor_company_id rec = sid"
      by (auto simp: row_ok_def)
    from map_const_replicate[OF this(2)] len
    show "map pr_sensor_company_id y
        = (case x of (sid, p) \<Rightarrow>
             replicate (if contributes p then length (raw_readings p) else 0) sid)"
      by (simp add: x)
  qed
  show "\<forall>rec\<in>set recs. pr_timestamp rec = t \<and> pr_created_at rec = t"
    using fe
  proof (rule for_each_all)
    fix x y
    assume y: "transform_entry b t m x = Inr y"
    obtain sid p where x: "x = (sid, p)" by (cases x)
    from transform_entry_Inr[OF y[unfolded x]]
    show "\<forall>rec\<in>set y. pr_timestamp rec = t \<and> pr_created_at rec = t"
      by (auto simp: row_ok_def)
  qed
  show "\<forall>rec\<in>set recs.
           (\<forall>s\<in>set ss. si_sensor_company_id s \<noteq> Some (pr_sensor_company_id rec))
           \<longrightarrow> pr_device_id rec = None \<and> pr_device_name rec = None
               \<and> pr_gps_location_lat rec = None \<and> pr_gps_location_lng rec = None"
    using fe
  proof (rule for_each_all)
    fix x y
    assume y: "transform_entry b t m x = Inr y"
    obtain sid p where x: "x = (sid, p)" by (cases x)
    from transform_entry_Inr[OF y[unfolded x]]
    have ok: "\<forall>rec\<in>set y. row_ok b t sid (map_of m sid) rec" by simp
    show "\<forall>rec\<in>set y.
           (\<forall>s\<in>set ss. si_sensor_company_id s \<noteq> Some (pr_sensor_company_id rec))
           \<longrightarrow> pr_device_id rec = None \<and> pr_device_name rec = None
               \<and> pr_gps_location_lat rec = None \<and> pr_gps_location_lng rec = None"
    proof (intro ballI impI)
      fix rec
      assume rec: "rec \<in> set y"
        and no: "\<forall>s\<in>set ss. si_sensor_company_id s \<noteq> Some (pr_sensor_company_id rec)"
      from ok rec have r: "row_ok b t sid (map_of m sid) rec" by simp
      then have "pr_sensor_company_id rec = sid" by (simp add: row_ok_def)
      with no device_info_map_keys[OF m, of sid] have "map_of m sid = None" by simp
      with r show "pr_device_id rec = None \<and> pr_device_name rec = None
               \<and> pr_gps_location_lat rec = None \<and> pr_gps_location_lng rec = None"
        by (simp add: row_ok_def info_get_def str_if_def)
    qed
  qed
qed











lemmas transform_defs =
  transform_rainfall_data_def transform_entry_def transform_group_def transform_record_def
  and_then_def raw_data_json_def safe_float_def str_if_def info_get_def py_str_def
  sample_batch_def sample_sensors_def sample_row_def sample_sensor_def sample_payload_def
  sample_reading_def sample_builtins_def






lemma and_then_untimed:
  assumes "\<And>v. m = Inr v \<Longrightarrow> untimed_result (f1 v) = untimed_result (f2 v)"
  shows "untimed_result (and_then m f1) = untimed_result (and_then m f2)"
  using assms by (cases m) (simp_all add: and_then_def)

lemma untimed_result_cases:
  assumes "untimed_result r1 = untimed_result r2"
  obtains x where "r1 = Inl x" "r2 = Inl x"
  | rows1 rows2 where "r1 = Inr rows1" "r2 = Inr rows2" "map untimed rows1 = map untimed rows2"
  using assms by (cases r1; cases r2) (auto simp: untimed_result_def)

lemma for_each_untimed:
  assumes "\<And>x. x \<in> set xs \<Longrightarrow> untimed_result (f1 x) = untimed_result (f2 x)"
  shows "untimed_result (for_each f1 xs) = untimed_result (for_each f2 xs)"
  using assms
proof (induction xs)
  case Nil
  show ?case by simp
next
  case (Cons x xs)
  have hd: "untimed_result (f1 x) = untimed_result (f2 x)"
    by (rule Cons.prems) simp
  have tl: "untimed_result (for_each f1 xs) = untimed_result (for_each f2 xs)"
    by (rule Cons.IH) (rule Cons.prems, simp)
  from hd show ?case
  proof (cases rule: untimed_result_cases)
    case (1 e)
    then show ?thesis by (simp add: and_then_def)
  next
    case hd2: (2 rows1 rows2)
    from tl show ?thesis
    proof (cases rule: untimed_result_cases)
      case (1 e)
      with hd2 show ?thesis by (simp add: and_then_def)
    next
      case (2 more1 more2)
      with hd2 show ?thesis by (simp add: and_then_def untimed_result_def)
    qed
  qed
qed

lemma transform_record_untimed:
  "untimed_result (transform_record b t1 sid di sm r)
     = untimed_result (transform_record b t2 sid di sm r)"
  by (simp add: transform_record_def and_then_def untimed_def untimed_result_def
      split: sum.splits)

lemma transform_group_untimed:
  "untimed_result (transform_group b t1 sid di g)
     = untimed_result (transform_group b t2 sid di g)"
  unfolding transform_group_def
  by (intro and_then_untimed for_each_untimed transform_record_untimed)

lemma transform_entry_untimed:
  "untimed_result (transform_entry b t1 m x) = untimed_result (transform_entry b t2 m x)"
proof -
  obtain sid p where x: "x = (sid, p)" by (cases x)
  have inner: "untimed_result
        (and_then (py_get p ''data'' (JObj [])) (\<lambda>d.
              and_then (py_get d ''data'' (JArr [])) (\<lambda>records.
              and_then (py_iter records)
                (for_each (transform_group b t1 sid (map_of m sid))))))
      = untimed_result
        (and_then (py_get p ''data'' (JObj [])) (\<lambda>d.
              and_then (py_get d ''data'' (JArr [])) (\<lambda>records.
              and_then (py_iter records)
                (for_each (transform_group b t2 sid (map_of m sid))))))"
    by (intro and_then_untimed for_each_untimed transform_group_untimed)
  show ?thesis
    unfolding x transform_entry_def prod.case
    by (cases "truthy p"; cases "py_get p ''status'' JNull") (simp_all add: and_then_simps inner)
qed

lemma for_each_stmt_appends:
  assumes "\<And>x f. x \<in> set xs \<Longrightarrow> fr_device_info_map f = m \<Longrightarrow> appends f (g x) (body x f)"
    and "fr_device_info_map f = m"
  shows "appends f (for_each g xs) (for_each_stmt body xs f)"
  using assms
proof (induction xs arbitrary: f)
  case Nil
  show ?case by (simp add: appends_def)
next
  case (Cons x xs)
  have hd: "appends f (g x) (body x f)" by (rule Cons.prems(1)) (simp_all add: Cons.prems(2))
  show ?case
  proof (cases "g x")
    case (Inl err)
    with hd show ?thesis
      by (cases "body x f") (auto simp: appends_def and_then_def)
  next
    case (Inr ys)
    let ?f1 = "f\<lparr>fr_transformed_records := fr_transformed_records f @ ys\<rparr>"
    from hd Inr have b: "body x f = (Inr (), ?f1)" by (simp add: appends_def)
    have m1: "fr_device_info_map ?f1 = m" using Cons.prems(2) by simp
    have tl: "appends ?f1 (for_each g xs) (for_each_stmt body xs ?f1)"
      by (rule Cons.IH[OF _ m1]) (rule Cons.prems(1), simp_all)
    show ?thesis
      using tl by (cases "for_each g xs") (auto simp: appends_def and_then_def Inr b)
  qed
qed

lemma append_record_appends:
  "appends f (transform_record b t sid di sm r) (append_record b t sid di sm r f)"
  by (simp add: appends_def append_record_def split: sum.splits)

lemma group_stmt_appends:
  "appends f (transform_group b t sid di g) (group_stmt b t sid di g f)"
proof -
  have loop: "\<And>sm rs. appends f (for_each (transform_record b t sid di sm) rs)
      (for_each_stmt (append_record b t sid di sm) rs f)"
    by (rule for_each_stmt_appends[where m = "fr_device_info_map f"])
       (rule append_record_appends, rule refl)
  have err: "\<And>err. appends f (Inl err) (Inl err, f)" by (simp add: appends_def)
  show ?thesis
    unfolding transform_group_def group_stmt_def
    by (auto simp: and_then_def loop err split: sum.splits)
qed

lemma entry_stmt_appends:
  "appends f (transform_entry b t (fr_device_info_map f) x) (entry_stmt b t x f)"
proof -
  obtain sid p where x: "x = (sid, p)" by (cases x)
  have loop: "\<And>gs. appends f
      (for_each (transform_group b t sid (map_of (fr_device_info_map f) sid)) gs)
      (for_each_stmt (group_stmt b t sid (map_of (fr_device_info_map f) sid)) gs f)"
    by (rule for_each_stmt_appends[where m = "fr_device_info_map f"])
       (rule group_stmt_appends, rule refl)
  have unit: "appends f (Inr []) (Inr (), f)" by (simp add: appends_def)
  have err: "\<And>err. appends f (Inl err) (Inl err, f)" by (simp add: appends_def)
  show ?thesis
    unfolding x transform_entry_def entry_stmt_def prod.case Let_def
    by (auto simp: and_then_def loop unit err split: sum.splits)
qed

lemma transform_call_frame:
  "fst (transform_call b t rd ss) = transform_rainfall_data b t rd ss
   \<and> fr_rainfall_data (snd (transform_call b t rd ss)) = rd
   \<and> fr_sensors_with_device_info (snd (transform_call b t rd ss)) = ss"
proof (cases "device_info_map [] ss")
  case (Inl err)
  then show ?thesis
    by (simp add: transform_call_def build_device_info_map_def transform_rainfall_data_def
        and_then_def)
next
  case (Inr m)
  let ?f1 = "\<lparr>fr_rainfall_data = rd, fr_sensors_with_device_info = ss,
              fr_device_info_map = m, fr_transformed_records = []\<rparr>"
  have "appends ?f1 (for_each (transform_entry b t m) rd)
          (for_each_stmt (entry_stmt b t) rd ?f1)"
  proof (rule for_each_stmt_appends[where m = m])
    fix x f
    assume "fr_device_info_map (f :: transform_frame) = m"
    then show "appends f (transform_entry b t m x) (entry_stmt b t x f)"
      using entry_stmt_appends[of f b t x] by simp
  qed simp
  then show ?thesis
    by (cases "for_each (transform_entry b t m) rd";
        cases "for_each_stmt (entry_stmt b t) rd ?f1")
       (auto simp: appends_def transform_call_def build_device_info_map_def
          transform_rainfall_data_def and_then_def Inr)
qed

lemma sample_call:
  "transform_call sample_builtins t sample_batch sample_sensors
     = (Inr [sample_row t ''S1'', sample_row t ''S2''], sample_frame t)"
  by (simp add: transform_call_def build_device_info_map_def entry_stmt_def group_stmt_def
      append_record_def sample_frame_def transform_defs)

text \<open>
  C9, amended. A call of \<open>transform_rainfall_data\<close> leaves both of its arguments as they
  were, whether it returns or raises. A second call on them raises the same exception or returns
  rows that agree with the rows of the first call in every field but \<^verbatim>\<open>timestamp\<close> and
  \<^verbatim>\<open>created_at\<close>; these two fields of every row hold what \<^verbatim>\<open>datetime.now()\<close> returned
  to the call, so the two calls return equal lists when they read the same time. What a call
  returns is the value of the function \<open>transform_rainfall_data\<close> of the section above.
\<close>

theorem transform_repeatable:
  assumes "transform_call b t1 rd ss = (r1, f1)"
    and "transform_call b t2 (fr_rainfall_data f1) (fr_sensors_with_device_info f1) = (r2, f2)"
  shows "fr_rainfall_data f1 = rd \<and> fr_sensors_with_device_info f1 = ss
     \<and> fr_rainfall_data f2 = rd \<and> fr_sensors_with_device_info f2 = ss
     \<and> r1 = transform_rainfall_data b t1 rd ss \<and> r2 = transform_rainfall_data b t2 rd ss
     \<and> untimed_result r1 = untimed_result r2
     \<and> (t1 = t2 \<longrightarrow> r1 = r2)
     \<and> (\<forall>recs. r1 = Inr recs
          \<longrightarrow> (\<forall>rec\<in>set recs. pr_timestamp rec = t1 \<and> pr_created_at rec = t1))"
proof -
  from transform_call_frame[of b t1 rd ss] assms(1)
  have a1: "r1 = transform_rainfall_data b t1 rd ss" "fr_rainfall_data f1 = rd"
    "fr_sensors_with_device_info f1 = ss"
    by simp_all
  from transform_call_frame[of b t2 rd ss] assms(2) a1
  have a2: "r2 = transform_rainfall_data b t2 rd ss" "fr_rainfall_data f2 = rd"
    "fr_sensors_with_device_info f2 = ss"
    by simp_all
  have u: "untimed_result r1 = untimed_result r2"
    unfolding a1(1) a2(1) transform_rainfall_data_def
    by (intro and_then_untimed for_each_untimed transform_entry_untimed)
  have st: "\<forall>recs. r1 = Inr recs
          \<longrightarrow> (\<forall>rec\<in>set recs. pr_timestamp rec = t1 \<and> pr_created_at rec = t1)"
  proof (intro allI impI)
    fix recs
    assume "r1 = Inr recs"
    then have "transform_rainfall_data b t1 rd ss = Inr recs" using a1(1) by simp
    then show "\<forall>rec\<in>set recs. pr_timestamp rec = t1 \<and> pr_created_at rec = t1"
      by (rule transform_rows(2))
  qed
  have eq: "t1 = t2 \<longrightarrow> r1 = r2"
    using a1(1) a2(1) by simp
  from a1 a2 u st eq show ?thesis by (intro conjI)
qed

text \<open>
  The claim as stated fails: a second call on the same batch and inventory whose reading of
  \<^verbatim>\<open>datetime.now()\<close> differs from that of the first call returns different rows.
\<close>

theorem transform_rows_carry_the_clock:
  "fst (transform_call sample_builtins ''2024-01-01T00:00:00'' sample_batch sample_sensors)
     \<noteq> fst (transform_call sample_builtins ''2024-01-01T00:00:01''
           (fr_rainfall_data
              (snd (transform_call sample_builtins ''2024-01-01T00:00:00'' sample_batch
                 sample_sensors)))
           (fr_sensors_with_device_info
              (snd (transform_call sample_builtins ''2024-01-01T00:00:00'' sample_batch
                 sample_sensors))))"
  by (simp add: sample_call sample_frame_def sample_row_def)

theorem transform_repeatable_witness:
  "transform_call sample_builtins ''t1'' sample_batch sample_sensors
     = (Inr [sample_row ''t1'' ''S1'', sample_row ''t1'' ''S2''], sample_frame ''t1'')
   \<and> transform_call sample_builtins ''t2'' (fr_rainfall_data (sample_frame ''t1''))
        (fr_sensors_with_device_info (sample_frame ''t1''))
     = (Inr [sample_row ''t2'' ''S1'', sample_row ''t2'' ''S2''], sample_frame ''t2'')
   \<and> fr_rainfall_data (sample_frame ''t1'') = sample_batch
   \<and> fr_sensors_with_device_info (sample_frame ''t2'') = sample_sensors
   \<and> map untimed [sample_row ''t1'' ''S1'', sample_row ''t1'' ''S2'']
     = map untimed [sample_row ''t2'' ''S1'', sample_row ''t2'' ''S2'']
   \<and> pr_timestamp (sample_row ''t1'' ''S1'') = ''t1''
   \<and> pr_created_at (sample_row ''t1'' ''S2'') = ''t1''"
proof -
  let ?r1 = "[sample_row ''t1'' ''S1'', sample_row ''t1'' ''S2'']"
  let ?r2 = "[sample_row ''t2'' ''S1'', sample_row ''t2'' ''S2'']"
  have h1: "transform_call sample_builtins ''t1'' sample_batch sample_sensors
     = (Inr ?r1, sample_frame ''t1'')"
    by (rule sample_call)
  have h2: "transform_call sample_builtins ''t2'' (fr_rainfall_data (sample_frame ''t1''))
        (fr_sensors_with_device_info (sample_frame ''t1''))
     = (Inr ?r2, sample_frame ''t2'')"
    using sample_call[of "''t2''"] by (simp add: sample_frame_def)
  note c = transform_repeatable[OF h1 h2]
  from c have args: "fr_rainfall_data (sample_frame ''t1'') = sample_batch"
    "fr_sensors_with_device_info (sample_frame ''t2'') = sample_sensors"
    by blast+
  from c have "untimed_result (Inr ?r1) = untimed_result (Inr ?r2)" by blast
  then have u: "map untimed ?r1 = map untimed ?r2"
    by (simp add: untimed_result_def)
  from c have "\<forall>rec\<in>set ?r1. pr_timestamp rec = ''t1'' \<and> pr_created_at rec = ''t1''"
    by blast
  then have st: "pr_timestamp (sample_row ''t1'' ''S1'') = ''t1''"
    "pr_created_at (sample_row ''t1'' ''S2'') = ''t1''"
    by simp_all
  from h1 h2 args u st show ?thesis by (intro conjI)
qed

section \<open>Properties of the persister\<close>


lemma insert_row_effect:
  "total_saved (insert_row db st r)
     = total_saved st + (if row_saved db (length (inserts st)) r then 1 else 0)"
  "inserts (insert_row db st r) = inserts st @ [[r]]"
  by (auto simp: insert_row_def row_saved_def Let_def split: sum.splits option.splits)

lemma upt_0_Suc: "[0..<Suc n] = 0 # map Suc [0..<n]"
  by (simp add: upt_rec[of 0 "Suc n"] map_Suc_upt del: upt_Suc)

lemma retry_rows_effect:
  "total_saved (foldl (insert_row db) st rs)
     = total_saved st
       + length (filter (\<lambda>i. row_saved db (length (inserts st) + i) (rs ! i)) [0..<length rs])
   \<and> inserts (foldl (insert_row db) st rs) = inserts st @ map (\<lambda>r. [r]) rs"
proof (induction rs arbitrary: st)
  case Nil
  show ?case by simp
next
  case (Cons r rs)
  let ?st = "insert_row db st r"
  have len: "length (inserts ?st) = Suc (length (inserts st))"
    by (simp add: insert_row_effect)
  have "filter (\<lambda>i. row_saved db (length (inserts st) + i) ((r # rs) ! i)) [0..<length (r # rs)]
      = (if row_saved db (length (inserts st)) r then [0] else [])
        @ map Suc (filter (\<lambda>i. row_saved db (length (inserts ?st) + i) (rs ! i)) [0..<length rs])"
    by (simp add: upt_0_Suc filter_map comp_def len del: upt_Suc)
  then have "length (filter (\<lambda>i. row_saved db (length (inserts st) + i) ((r # rs) ! i))
        [0..<length (r # rs)])
      = (if row_saved db (length (inserts st)) r then 1 else 0)
        + length (filter (\<lambda>i. row_saved db (length (inserts ?st) + i) (rs ! i)) [0..<length rs])"
    by simp
  with Cons.IH[of ?st] show ?case
    by (simp add: insert_row_effect del: upt_Suc)
qed

lemma one_batch: "records \<noteq> [] \<Longrightarrow> length records \<le> SUPABASE_BATCH_SIZE \<Longrightarrow>
    batches records = [records]"
  by (subst batches.simps) (simp add: batches.simps[of "[]"])

lemma failed_batch_effect:
  assumes "records \<noteq> []" "length records \<le> SUPABASE_BATCH_SIZE" "isl (db 0 records)"
  shows "save_to_supabase db records =
     (True, \<lparr>total_saved = card {i. i < length records \<and> row_saved db (Suc i) (records ! i)},
             inserts = records # map (\<lambda>r. [r]) records\<rparr>)"
proof -
  let ?st = "\<lparr>total_saved = 0, inserts = [records]\<rparr>"
  from assms(3) obtain x where x: "db 0 records = Inl x" by (cases "db 0 records") auto
  have run: "save_to_supabase db records = (True, foldl (insert_row db) ?st records)"
    using assms(1) by (simp add: save_to_supabase_def one_batch[OF assms(1,2)] insert_batch_def x)
  have "length (filter (\<lambda>i. row_saved db (Suc i) (records ! i)) [0..<length records])
      = card {i. i < length records \<and> row_saved db (Suc i) (records ! i)}"
  proof -
    have "{i. i < length records
            \<and> row_saved db (Suc ([0..<length records] ! i)) (records ! ([0..<length records] ! i))}
        = {i. i < length records \<and> row_saved db (Suc i) (records ! i)}"
      by auto
    then show ?thesis by (simp add: length_filter_conv_card)
  qed
  with retry_rows_effect[of db ?st records]
  have "total_saved (foldl (insert_row db) ?st records)
      = card {i. i < length records \<and> row_saved db (Suc i) (records ! i)}"
    and "inserts (foldl (insert_row db) ?st records) = records # map (\<lambda>r. [r]) records"
    by simp_all
  then have "foldl (insert_row db) ?st records
      = \<lparr>total_saved = card {i. i < length records \<and> row_saved db (Suc i) (records ! i)},
         inserts = records # map (\<lambda>r. [r]) records\<rparr>"
    by (cases "foldl (insert_row db) ?st records") simp
  with run show ?thesis by simp
qed

lemma all_but_one:
  assumes "k < n" "\<not> P k" "\<forall>i<n. i \<noteq> k \<longrightarrow> P i"
  shows "card {i. i < n \<and> P i} = n - 1"
proof -
  have "{i. i < n \<and> P i} = {0..<n} - {k}"
    using assms by auto
  then show ?thesis using assms(1) by simp
qed

text \<open>
  C6. \<open>save_to_supabase\<close> returns \<^verbatim>\<open>True\<close> for every list of rows and every behaviour
  of the store; for the empty list it makes no insert. When the rows fit into one batch and the
  insert of the batch raises, every row is inserted alone, in order, and the count of saved
  rows that the method reports is the number of rows whose own insert returned rows; so when
  the insert of exactly one row fails, the count is the size of the batch minus one.
\<close>

theorem persist_is_best_effort:
  "fst (save_to_supabase db records)
   \<and> save_to_supabase db [] = (True, \<lparr>total_saved = 0, inserts = []\<rparr>)
   \<and> (records \<noteq> [] \<and> length records \<le> SUPABASE_BATCH_SIZE \<and> isl (db 0 records)
      \<longrightarrow> save_to_supabase db records =
           (True, \<lparr>total_saved = card {i. i < length records \<and> row_saved db (Suc i) (records ! i)},
                   inserts = records # map (\<lambda>r. [r]) records\<rparr>)
          \<and> (k < length records \<and> \<not> row_saved db (Suc k) (records ! k)
              \<and> (\<forall>i<length records. i \<noteq> k \<longrightarrow> row_saved db (Suc i) (records ! i))
             \<longrightarrow> total_saved (snd (save_to_supabase db records)) = length records - 1))"
proof (intro conjI impI)
  show "fst (save_to_supabase db records)"
    by (simp add: save_to_supabase_def)
  show "save_to_supabase db [] = (True, \<lparr>total_saved = 0, inserts = []\<rparr>)"
    by (simp add: save_to_supabase_def)
next
  assume a: "records \<noteq> [] \<and> length records \<le> SUPABASE_BATCH_SIZE \<and> isl (db 0 records)"
  then show e: "save_to_supabase db records =
           (True, \<lparr>total_saved = card {i. i < length records \<and> row_saved db (Suc i) (records ! i)},
                   inserts = records # map (\<lambda>r. [r]) records\<rparr>)"
    using failed_batch_effect[of records db] by simp
  assume "k < length records \<and> \<not> row_saved db (Suc k) (records ! k)
              \<and> (\<forall>i<length records. i \<noteq> k \<longrightarrow> row_saved db (Suc i) (records ! i))"
  then have "card {i. i < length records \<and> row_saved db (Suc i) (records ! i)} = length records - 1"
    using all_but_one[of k "length records" "\<lambda>i. row_saved db (Suc i) (records ! i)"] by simp
  with e show "total_saved (snd (save_to_supabase db records)) = length records - 1"
    by simp
qed

theorem persist_is_best_effort_witness:
  "three_rows \<noteq> [] \<and> length three_rows \<le> SUPABASE_BATCH_SIZE \<and> isl (flaky_store 0 three_rows)
   \<and> \<not> row_saved flaky_store 2 (three_rows ! 1)
   \<and> row_saved flaky_store 1 (three_rows ! 0) \<and> row_saved flaky_store 3 (three_rows ! 2)
   \<and> fst (save_to_supabase flaky_store three_rows)
   \<and> total_saved (snd (save_to_supabase flaky_store three_rows)) = 2
   \<and> inserts (snd (save_to_supabase flaky_store three_rows))
       = [three_rows, [three_rows ! 0], [three_rows ! 1], [three_rows ! 2]]"
proof -
  have a: "three_rows \<noteq> [] \<and> length three_rows \<le> SUPABASE_BATCH_SIZE
      \<and> isl (flaky_store 0 three_rows)"
    by (simp add: three_rows_def SUPABASE_BATCH_SIZE_def flaky_store_def)
  have b: "\<not> row_saved flaky_store 2 (three_rows ! 1)"
    "row_saved flaky_store 1 (three_rows ! 0)" "row_saved flaky_store 3 (three_rows ! 2)"
    by (simp_all add: row_saved_def flaky_store_def)
  have l: "length three_rows = 3" by (simp add: three_rows_def)
  have c: "\<forall>i<length three_rows. i \<noteq> 1 \<longrightarrow> row_saved flaky_store (Suc i) (three_rows ! i)"
    by (simp add: row_saved_def flaky_store_def)
  have b': "\<not> row_saved flaky_store (Suc 1) (three_rows ! 1)"
    by (simp add: row_saved_def flaky_store_def)
  have s: "1 < length three_rows \<and> \<not> row_saved flaky_store (Suc 1) (three_rows ! 1)
      \<and> (\<forall>i<length three_rows. i \<noteq> 1 \<longrightarrow> row_saved flaky_store (Suc i) (three_rows ! i))"
    using l b' c by simp
  note t = persist_is_best_effort[of flaky_store three_rows 1]
  note f = t[THEN conjunct1]
  note r = t[THEN conjunct2, THEN conjunct2, THEN mp, OF a]
  note e = r[THEN conjunct1]
  note n = r[THEN conjunct2, THEN mp, OF s]
  have n': "total_saved (snd (save_to_supabase flaky_store three_rows)) = 2"
    using n l by simp
  have i: "inserts (snd (save_to_supabase flaky_store three_rows))
       = [three_rows, [three_rows ! 0], [three_rows ! 1], [three_rows ! 2]]"
    unfolding e by (simp add: three_rows_def)
  from a b f n' i show ?thesis by (intro conjI) simp_all
qed

end
